theory Spec2Isabelle
  imports Complex_Main "HOL-Library.Multiset"
begin

section \<open>Conventions of the embedding\<close>

text \<open>
  The repository holds four variants of one Arkanoid game. Three of them are embedded
  here, each under the names of its own source file:
  \<^item> the SDL engine with level files, collectibles and a leaderboard, the first program of
    \<^verbatim>\<open>arkanoid_full.c\<close> (\<^verbatim>\<open>update_engine\<close>, \<^verbatim>\<open>reset_level\<close>, \<^verbatim>\<open>add_to_leaderboard\<close>);
  \<^item> the earlier SDL engine of \<^verbatim>\<open>part_000\<close> (\<^verbatim>\<open>updateEngine\<close>, \<^verbatim>\<open>resetLevel\<close>);
  \<^item> the Windows program \<^verbatim>\<open>arkanoid.c\<close> (\<^verbatim>\<open>update_ball\<close> and the loop of \<^verbatim>\<open>WinMain\<close>).

  The fourth, the second program in \<^verbatim>\<open>arkanoid_full.c\<close> (from line 968), is an SDL engine of
  the same shape as the first, with level files and particles but without collectibles,
  special bricks or a leaderboard; it is not embedded.

  A C \<^verbatim>\<open>float\<close> or \<^verbatim>\<open>double\<close> is a \<^typ>\<open>real\<close>: rounding, infinities and NaN are not
  part of the model. A C \<^verbatim>\<open>int\<close> is an \<^typ>\<open>int\<close>. The score is the one \<^verbatim>\<open>int\<close> of the programs
  that a session can drive past \<^verbatim>\<open>INT_MAX\<close>: every sum that is stored in it is taken in 32-bit
  two's complement (\<open>c_int32\<close> below), which is what the compiled programs do although C
  leaves signed overflow undefined. The other \<^verbatim>\<open>int\<close>s are counters that stay far inside the
  range (lives, level, bricks left) and are computed in \<^typ>\<open>int\<close>. An \<^verbatim>\<open>int\<close> that the code
  only ever tests and sets to 0 or 1 is a \<^typ>\<open>bool\<close>. The fields \<^verbatim>\<open>x, y, w, h\<close> of \<^verbatim>\<open>RectF\<close> are written \<open>rect_x\<close>, \<open>rect_y\<close>,
  \<open>rect_w\<close>, \<open>rect_h\<close>, and a field \<^verbatim>\<open>rect\<close> carries the name of its struct, since record
  fields are global names.

  Every call of \<^verbatim>\<open>rand()\<close> takes its result from a parameter \<open>rnd\<close>: \<open>rnd k\<close> is what the
  \<open>k\<close>-th call made by the function returns. Sound, drawing, particles and the star field
  read the game state and never write to anything the engine reads; they are left out.
\<close>

subsection \<open>C arithmetic\<close>

text \<open>Integer division and remainder of C truncate towards zero.\<close>

definition c_div :: "int \<Rightarrow> int \<Rightarrow> int" where
  "c_div a b = sgn a * sgn b * (\<bar>a\<bar> div \<bar>b\<bar>)"

definition c_mod :: "int \<Rightarrow> int \<Rightarrow> int" where
  "c_mod a b = a - b * c_div a b"

text \<open>
  The value that a 32-bit two's-complement \<^verbatim>\<open>int\<close> holds when the number \<open>x\<close> is stored in it:
  \<open>x\<close> itself between \<^verbatim>\<open>INT_MIN\<close> and \<^verbatim>\<open>INT_MAX\<close>, and \<open>x\<close> reduced modulo \<open>2\<^sup>3\<^sup>2\<close> into that
  range otherwise.
\<close>

abbreviation (input) INT_MAX :: int where "INT_MAX \<equiv> 2147483647"
abbreviation (input) INT_MIN :: int where "INT_MIN \<equiv> - 2147483648"

definition c_int32 :: "int \<Rightarrow> int" where
  "c_int32 x = (x + 2147483648) mod 4294967296 - 2147483648"

text \<open>The cast \<^verbatim>\<open>(int)f\<close> of a float drops the fraction.\<close>

definition c_int_of_float :: "real \<Rightarrow> int" where
  "c_int_of_float f = (if 0 \<le> f then \<lfloor>f\<rfloor> else \<lceil>f\<rceil>)"

section \<open>arkanoid\_full.c: configuration and types\<close>

abbreviation (input) WINDOW_WIDTH :: int where "WINDOW_WIDTH \<equiv> 960"
abbreviation (input) WINDOW_HEIGHT :: int where "WINDOW_HEIGHT \<equiv> 640"
abbreviation (input) PADDLE_WIDTH :: int where "PADDLE_WIDTH \<equiv> 140"
abbreviation (input) PADDLE_HEIGHT :: int where "PADDLE_HEIGHT \<equiv> 18"
abbreviation (input) PADDLE_Y_OFFSET :: int where "PADDLE_Y_OFFSET \<equiv> 64"
abbreviation (input) PADDLE_SPEED :: real where "PADDLE_SPEED \<equiv> 800"
abbreviation (input) BALL_SIZE :: int where "BALL_SIZE \<equiv> 14"
abbreviation (input) BALL_SPEED_INITIAL :: real where "BALL_SPEED_INITIAL \<equiv> 420"
abbreviation (input) BALL_SPEED_GROWTH :: real where "BALL_SPEED_GROWTH \<equiv> 1"
abbreviation (input) BRICK_COLUMNS :: nat where "BRICK_COLUMNS \<equiv> 12"
abbreviation (input) BRICK_ROWS :: nat where "BRICK_ROWS \<equiv> 7"
abbreviation (input) BRICK_WIDTH :: int where "BRICK_WIDTH \<equiv> 960 div 12"
abbreviation (input) BRICK_HEIGHT :: int where "BRICK_HEIGHT \<equiv> 28"
abbreviation (input) BRICK_PADDING :: int where "BRICK_PADDING \<equiv> 4"
abbreviation (input) MAX_LEVELS :: int where "MAX_LEVELS \<equiv> 10"
abbreviation (input) STARTING_LIVES :: int where "STARTING_LIVES \<equiv> 3"
abbreviation (input) MAX_COLLECTIBLES :: nat where "MAX_COLLECTIBLES \<equiv> 8"
abbreviation (input) LEADERBOARD_N :: nat where "LEADERBOARD_N \<equiv> 5"

record RectF =
  rect_x :: real
  rect_y :: real
  rect_w :: real
  rect_h :: real

record Brick =
  brick_rect :: RectF
  is_alive :: bool
  color_index :: int
  special :: bool

record Paddle =
  paddle_rect :: RectF
  velocity_x :: real

record Ball =
  ball_rect :: RectF
  vx :: real
  vy :: real
  speed :: real
  is_held :: bool

record GameState =
  score :: int
  lives :: int
  level :: int
  bricks_remaining :: int
  is_paused :: bool
  is_running :: bool
  show_menu :: bool

record Collectible =
  coll_rect :: RectF
  coll_vx :: real
  coll_vy :: real
  coll_alive :: bool
  coll_type :: int

text \<open>
  The calls into the persistence functions, in the order they are made. This list is not
  a variable of the program: it records the calls so that they can be counted.
\<close>

datatype persist_call =
  Add_To_Leaderboard int
  | Save_Leaderboard "int list"
  | Save_Highscore int

text \<open>
  The globals of the program, and what it sees of the file system: \<open>level_files n\<close> is the
  list of lines that \<^verbatim>\<open>fgets\<close> reads from \<^verbatim>\<open>level<n>.txt\<close> (\<open>None\<close> when \<^verbatim>\<open>fopen\<close> fails),
  \<open>highscore_file\<close> and \<open>leaderboard_file\<close> are the numbers stored in the two data files,
  and \<open>files_writable\<close> tells whether \<^verbatim>\<open>fopen(..., "wb")\<close> succeeds.
\<close>

record World =
  paddle :: Paddle
  ball :: Ball
  bricks :: "Brick list"
  game_state :: GameState
  collectibles :: "Collectible list"
  menu_play_rect :: RectF
  high_score :: int
  leaderboard :: "int list"
  level_files :: "int \<Rightarrow> string list option"
  highscore_file :: "int option"
  leaderboard_file :: "int list option"
  files_writable :: bool
  persist_log :: "persist_call list"

abbreviation ball_x :: "Ball \<Rightarrow> real" where "ball_x b \<equiv> rect_x (ball_rect b)"
abbreviation ball_y :: "Ball \<Rightarrow> real" where "ball_y b \<equiv> rect_y (ball_rect b)"
abbreviation ball_w :: "Ball \<Rightarrow> real" where "ball_w b \<equiv> rect_w (ball_rect b)"
abbreviation ball_h :: "Ball \<Rightarrow> real" where "ball_h b \<equiv> rect_h (ball_rect b)"
abbreviation paddle_x :: "Paddle \<Rightarrow> real" where "paddle_x p \<equiv> rect_x (paddle_rect p)"
abbreviation paddle_y :: "Paddle \<Rightarrow> real" where "paddle_y p \<equiv> rect_y (paddle_rect p)"
abbreviation paddle_w :: "Paddle \<Rightarrow> real" where "paddle_w p \<equiv> rect_w (paddle_rect p)"
abbreviation paddle_h :: "Paddle \<Rightarrow> real" where "paddle_h p \<equiv> rect_h (paddle_rect p)"

abbreviation set_ball_x :: "real \<Rightarrow> Ball \<Rightarrow> Ball" where
  "set_ball_x v b \<equiv> b\<lparr>ball_rect := (ball_rect b)\<lparr>rect_x := v\<rparr>\<rparr>"
abbreviation set_ball_y :: "real \<Rightarrow> Ball \<Rightarrow> Ball" where
  "set_ball_y v b \<equiv> b\<lparr>ball_rect := (ball_rect b)\<lparr>rect_y := v\<rparr>\<rparr>"
abbreviation set_paddle_x :: "real \<Rightarrow> Paddle \<Rightarrow> Paddle" where
  "set_paddle_x v p \<equiv> p\<lparr>paddle_rect := (paddle_rect p)\<lparr>rect_x := v\<rparr>\<rparr>"
abbreviation set_paddle_y :: "real \<Rightarrow> Paddle \<Rightarrow> Paddle" where
  "set_paddle_y v p \<equiv> p\<lparr>paddle_rect := (paddle_rect p)\<lparr>rect_y := v\<rparr>\<rparr>"
abbreviation set_paddle_w :: "real \<Rightarrow> Paddle \<Rightarrow> Paddle" where
  "set_paddle_w v p \<equiv> p\<lparr>paddle_rect := (paddle_rect p)\<lparr>rect_w := v\<rparr>\<rparr>"

section \<open>arkanoid\_full.c: geometry\<close>

definition brick_index :: "nat \<Rightarrow> nat \<Rightarrow> nat" where
  "brick_index row col = row * BRICK_COLUMNS + col"

text \<open>\<^verbatim>\<open>clamp_paddle_position\<close>: two tests in sequence, the second on the result of the first.\<close>

definition clamp_paddle_position :: "Paddle \<Rightarrow> Paddle" where
  "clamp_paddle_position p =
    (let p1 = (if paddle_x p < 0 then set_paddle_x 0 p else p)
     in if paddle_x p1 + paddle_w p1 > WINDOW_WIDTH
        then set_paddle_x (WINDOW_WIDTH - paddle_w p1) p1 else p1)"

definition rect_overlap :: "RectF \<Rightarrow> RectF \<Rightarrow> bool" where
  "rect_overlap a b =
    (\<not> (rect_x a + rect_w a \<le> rect_x b \<or> rect_x b + rect_w b \<le> rect_x a \<or>
        rect_y a + rect_h a \<le> rect_y b \<or> rect_y b + rect_h b \<le> rect_y a))"

section \<open>arkanoid\_full.c: high score and leaderboard\<close>

text \<open>\<^verbatim>\<open>load_highscore\<close>: a missing or unreadable file gives 0.\<close>

definition load_highscore :: "World \<Rightarrow> World" where
  "load_highscore s =
    (case highscore_file s of
       None \<Rightarrow> s\<lparr>high_score := 0\<rparr>
     | Some sc \<Rightarrow> s\<lparr>high_score := sc\<rparr>)"

definition save_highscore :: "World \<Rightarrow> World" where
  "save_highscore s =
    (let s1 = s\<lparr>persist_log := persist_log s @ [Save_Highscore (high_score s)]\<rparr>
     in if \<not> files_writable s1 then s1
        else s1\<lparr>highscore_file := Some (high_score s1)\<rparr>)"

text \<open>
  \<^verbatim>\<open>load_leaderboard\<close>: \<^verbatim>\<open>fread\<close> fills the first entries with the numbers the file holds,
  at most \<open>LEADERBOARD_N\<close> of them, and the loop sets the rest to 0.
\<close>

definition load_leaderboard :: "World \<Rightarrow> World" where
  "load_leaderboard s =
    (case leaderboard_file s of
       None \<Rightarrow> s\<lparr>leaderboard := replicate LEADERBOARD_N 0\<rparr>
     | Some ns \<Rightarrow>
         s\<lparr>leaderboard := take LEADERBOARD_N ns @ replicate (LEADERBOARD_N - length ns) 0\<rparr>)"

definition save_leaderboard :: "World \<Rightarrow> World" where
  "save_leaderboard s =
    (let s1 = s\<lparr>persist_log := persist_log s @ [Save_Leaderboard (leaderboard s)]\<rparr>
     in if \<not> files_writable s1 then s1
        else s1\<lparr>leaderboard_file := Some (leaderboard s1)\<rparr>)"

text \<open>
  The body of the inner loop of \<^verbatim>\<open>add_to_leaderboard\<close>:
  \<^verbatim>\<open>if (tmp[j] > tmp[i]) { t = tmp[i]; tmp[i] = tmp[j]; tmp[j] = t; }\<close>.
\<close>

definition swap_if_greater :: "nat \<Rightarrow> nat \<Rightarrow> int list \<Rightarrow> int list" where
  "swap_if_greater i j tmp =
    (if tmp ! j > tmp ! i then tmp[i := tmp ! j, j := tmp ! i] else tmp)"

text \<open>
  The two nested loops, \<^verbatim>\<open>for (i=0;i<n;i++) for (j=i+1;j<n;j++)\<close>, over an array of
  \<open>n\<close> entries; the source runs them with \<open>n = LEADERBOARD_N + 1\<close>.
\<close>

definition sort_loops :: "nat \<Rightarrow> int list \<Rightarrow> int list" where
  "sort_loops n tmp =
    fold (\<lambda>i t. fold (swap_if_greater i) [i + 1 ..< n] t) [0 ..< n] tmp"

definition add_to_leaderboard :: "int \<Rightarrow> World \<Rightarrow> World" where
  "add_to_leaderboard sc s0 =
    (let s = s0\<lparr>persist_log := persist_log s0 @ [Add_To_Leaderboard sc]\<rparr>
     in if sc \<le> 0 then s
        else
          let tmp = take LEADERBOARD_N (leaderboard s) @ [sc];
              tmp' = sort_loops (LEADERBOARD_N + 1) tmp
          in save_leaderboard (s\<lparr>leaderboard := take LEADERBOARD_N tmp'\<rparr>))"

section \<open>arkanoid\_full.c: levels\<close>

text \<open>The cells of the grid in the order of \<^verbatim>\<open>for (r...) for (c...)\<close>.\<close>

definition grid_cells :: "(nat \<times> nat) list" where
  "grid_cells = concat (map (\<lambda>r. map (\<lambda>c. (r, c)) [0 ..< BRICK_COLUMNS]) [0 ..< BRICK_ROWS])"

text \<open>The four assignments to \<^verbatim>\<open>b->rect\<close>, the same in every place that builds a brick.\<close>

definition cell_rect :: "nat \<Rightarrow> nat \<Rightarrow> RectF" where
  "cell_rect r c =
    \<lparr>rect_x = real_of_int (int c * BRICK_WIDTH + BRICK_PADDING div 2),
     rect_y = real_of_int (80 + int r * (BRICK_HEIGHT + BRICK_PADDING)),
     rect_w = real_of_int (BRICK_WIDTH - BRICK_PADDING),
     rect_h = real_of_int (BRICK_HEIGHT - BRICK_PADDING)\<rparr>"

text \<open>
  One cell of \<^verbatim>\<open>load_level_from_file\<close>. Row \<open>r\<close> has a line when the \<open>r\<close>-th \<^verbatim>\<open>fgets\<close>
  succeeds; a column past the end of the line reads as \<^verbatim>\<open>'.'\<close>.
\<close>

definition file_cell :: "string list \<Rightarrow> int \<Rightarrow> nat \<Rightarrow> nat \<Rightarrow> Brick" where
  "file_cell lns lv r c =
    (if \<not> r < length lns
     then \<lparr>brick_rect = cell_rect r c, is_alive = False,
           color_index = c_mod (int r + int c + lv) 10, special = False\<rparr>
     else
       let line = lns ! r;
           ch = (if c < length line then line ! c else CHR ''.'')
       in if ch = CHR ''#''
          then \<lparr>brick_rect = cell_rect r c, is_alive = True,
                color_index = c_mod (int r + int c + lv) 10, special = False\<rparr>
          else if ch = CHR ''A''
          then \<lparr>brick_rect = cell_rect r c, is_alive = True,
                color_index = c_mod (int r + int c + lv) 10, special = True\<rparr>
          else \<lparr>brick_rect = cell_rect r c, is_alive = False,
                color_index = c_mod (int r + int c + lv) 10, special = False\<rparr>)"

definition count_alive :: "Brick list \<Rightarrow> int" where
  "count_alive bs = int (length (filter is_alive bs))"

text \<open>\<^verbatim>\<open>load_level_from_file\<close> returns 0 (here \<open>None\<close>) when the file cannot be opened.\<close>

definition load_level_from_file :: "int \<Rightarrow> World \<Rightarrow> World option" where
  "load_level_from_file lv s =
    (case level_files s lv of
       None \<Rightarrow> None
     | Some lns \<Rightarrow>
         let bs = map (\<lambda>(r, c). file_cell lns lv r c) grid_cells
         in Some (s\<lparr>bricks := bs,
                    game_state := (game_state s)\<lparr>bricks_remaining := count_alive bs\<rparr>\<rparr>))"

text \<open>
  The procedural layout of \<^verbatim>\<open>reset_level\<close>. The counter \<open>n\<close> is \<^verbatim>\<open>alive_count\<close>; \<^verbatim>\<open>rand()\<close> is
  called once for every live brick, so the call for the brick that raises the counter
  from \<open>n\<close> is call number \<open>n\<close>.
\<close>

fun fallback_cells :: "(nat \<Rightarrow> int) \<Rightarrow> int \<Rightarrow> (nat \<times> nat) list \<Rightarrow> nat \<Rightarrow> Brick list \<times> nat" where
  "fallback_cells rnd lv [] n = ([], n)"
| "fallback_cells rnd lv ((r, c) # cells) n =
    (if lv \<le> 1 \<or> c_mod (int r + int c + lv) (1 + c_div lv 2) \<noteq> 0
     then
       let (bs, m) = fallback_cells rnd lv cells (n + 1)
       in (\<lparr>brick_rect = cell_rect r c, is_alive = True,
            color_index = c_mod (int r + int c + lv) 10,
            special = (c_mod (rnd n) 18 = 0)\<rparr> # bs, m)
     else
       let (bs, m) = fallback_cells rnd lv cells n
       in (\<lparr>brick_rect = cell_rect r c, is_alive = False,
            color_index = c_mod (int r + int c + lv) 10, special = False\<rparr> # bs, m))"

definition reset_level :: "(nat \<Rightarrow> int) \<Rightarrow> int \<Rightarrow> World \<Rightarrow> World" where
  "reset_level rnd lv s =
    (let s1 = (case load_level_from_file lv s of
                 Some s' \<Rightarrow> s'
               | None \<Rightarrow>
                   let (bs, alive_count) = fallback_cells rnd lv grid_cells 0
                   in s\<lparr>bricks := bs,
                        game_state := (game_state s)\<lparr>bricks_remaining := int alive_count\<rparr>\<rparr>);
         p = set_paddle_y (real_of_int (WINDOW_HEIGHT - PADDLE_Y_OFFSET))
               (set_paddle_x ((WINDOW_WIDTH - paddle_w (paddle s1)) / 2) (paddle s1));
         b = (ball s1)\<lparr>ball_rect := (ball_rect (ball s1))
                         \<lparr>rect_x := paddle_x p + (paddle_w p - ball_w (ball s1)) / 2,
                          rect_y := paddle_y p - ball_h (ball s1) - 2\<rparr>,
                       vx := 0, vy := - 1, speed := BALL_SPEED_INITIAL, is_held := True\<rparr>
     in s1\<lparr>paddle := p, ball := b,
           collectibles := map (\<lambda>k. k\<lparr>coll_alive := False\<rparr>) (collectibles s1)\<rparr>)"

definition reset_game :: "(nat \<Rightarrow> int) \<Rightarrow> World \<Rightarrow> World" where
  "reset_game rnd s =
    reset_level rnd 1
      (s\<lparr>game_state := (game_state s)\<lparr>score := 0, lives := STARTING_LIVES, level := 1,
            is_paused := False, is_running := True, show_menu := True\<rparr>\<rparr>)"

section \<open>arkanoid\_full.c: the engine\<close>

definition add_score_for_brick :: "nat \<Rightarrow> nat \<Rightarrow> GameState \<Rightarrow> GameState" where
  "add_score_for_brick row col g = g\<lparr>score := c_int32 (score g + 10)\<rparr>"

text \<open>Lines 328-334 of \<^verbatim>\<open>update_engine\<close>: the ball moves, or sits on the paddle.\<close>

definition move_ball :: "real \<Rightarrow> Paddle \<Rightarrow> Ball \<Rightarrow> Ball" where
  "move_ball dt p b =
    (if \<not> is_held b
     then b\<lparr>ball_rect := (ball_rect b)
              \<lparr>rect_x := ball_x b + vx b * speed b * dt,
               rect_y := ball_y b + vy b * speed b * dt\<rparr>\<rparr>
     else b\<lparr>ball_rect := (ball_rect b)
              \<lparr>rect_x := paddle_x p + (paddle_w p - ball_w b) / 2,
               rect_y := paddle_y p - ball_h b - 2\<rparr>\<rparr>)"

text \<open>Lines 336-352: the left wall, then the right wall, then the top.\<close>

definition wall_collision :: "Ball \<Rightarrow> Ball" where
  "wall_collision b =
    (if is_held b then b
     else
       let b1 = (if ball_x b \<le> 0 then (set_ball_x 0 b)\<lparr>vx := \<bar>vx b\<bar>\<rparr> else b);
           b2 = (if ball_x b1 + ball_w b1 \<ge> WINDOW_WIDTH
                 then (set_ball_x (WINDOW_WIDTH - ball_w b1) b1)\<lparr>vx := - \<bar>vx b1\<bar>\<rparr> else b1)
       in if ball_y b2 \<le> 0 then (set_ball_y 0 b2)\<lparr>vy := \<bar>vy b2\<bar>\<rparr> else b2)"

text \<open>
  Lines 354-364: the bounce off the paddle. The factor \<open>growth\<close> is the macro that multiplies
  the speed, \<^verbatim>\<open>BALL_SPEED_GROWTH\<close> here and \<^verbatim>\<open>BALL_SPEED_INC\<close> in \<^verbatim>\<open>part_000\<close>, whose text is
  otherwise the same.
\<close>

definition paddle_bounce :: "real \<Rightarrow> Paddle \<Rightarrow> Ball \<Rightarrow> Ball" where
  "paddle_bounce growth p b =
    (if \<not> is_held b \<and> vy b > 0 \<and> rect_overlap (ball_rect b) (paddle_rect p)
     then
       let impact = ((ball_x b + ball_w b / 2) - (paddle_x p + paddle_w p / 2)) / (paddle_w p / 2);
           impact1 = (if impact < - 1 then - 1 else impact);
           impact2 = (if impact1 > 1 then 1 else impact1);
           angle = impact2 * (75 * (pi / 180))
       in (set_ball_y (paddle_y p - ball_h b - 1) b)
            \<lparr>vx := sin angle, vy := - cos angle, speed := speed b * growth\<rparr>
     else b)"

definition paddle_collision :: "Paddle \<Rightarrow> Ball \<Rightarrow> Ball" where
  "paddle_collision p b = paddle_bounce BALL_SPEED_GROWTH p b"

text \<open>
  Lines 373-397: the four depths \<^verbatim>\<open>ol, or, ot, ob\<close>, their minimum \<^verbatim>\<open>m\<close> and the chain of
  comparisons with \<^verbatim>\<open>m\<close>.
\<close>

definition brick_bounce :: "RectF \<Rightarrow> Ball \<Rightarrow> Ball" where
  "brick_bounce br b =
    (let o_l = (ball_x b + ball_w b) - rect_x br;
         o_r = (rect_x br + rect_w br) - ball_x b;
         o_t = (ball_y b + ball_h b) - rect_y br;
         o_b = (rect_y br + rect_h br) - ball_y b;
         m = min (min (min o_l o_r) o_t) o_b
     in if m = o_l then (set_ball_x (ball_x b - o_l) b)\<lparr>vx := - \<bar>vx b\<bar>\<rparr>
        else if m = o_r then (set_ball_x (ball_x b + o_r) b)\<lparr>vx := \<bar>vx b\<bar>\<rparr>
        else if m = o_t then (set_ball_y (ball_y b - o_t) b)\<lparr>vy := - \<bar>vy b\<bar>\<rparr>
        else (set_ball_y (ball_y b + o_b) b)\<lparr>vy := \<bar>vy b\<bar>\<rparr>)"

text \<open>Lines 405-417: the first free slot of \<^verbatim>\<open>collectibles\<close> takes the new collectible.\<close>

fun spawn_collectible :: "real \<Rightarrow> real \<Rightarrow> Collectible list \<Rightarrow> Collectible list" where
  "spawn_collectible cx cy [] = []"
| "spawn_collectible cx cy (k # ks) =
    (if \<not> coll_alive k
     then k\<lparr>coll_alive := True,
            coll_rect := \<lparr>rect_x = cx - 10, rect_y = cy - 10, rect_w = 20, rect_h = 20\<rparr>,
            coll_vx := 0, coll_vy := 60, coll_type := 0\<rparr> # ks
     else k # spawn_collectible cx cy ks)"

text \<open>Lines 373-426: what happens to the brick at \<open>(r, c)\<close> once the ball overlaps it.\<close>

definition hit_brick :: "nat \<Rightarrow> nat \<Rightarrow> World \<Rightarrow> World" where
  "hit_brick r c s =
    (let i = brick_index r c;
         b = bricks s ! i;
         bl = brick_bounce (brick_rect b) (ball s);
         g = (game_state s)\<lparr>bricks_remaining := bricks_remaining (game_state s) - 1\<rparr>;
         cx = rect_x (brick_rect b) + rect_w (brick_rect b) / 2;
         cy = rect_y (brick_rect b) + rect_h (brick_rect b) / 2;
         ks = (if special b then spawn_collectible cx cy (collectibles s) else collectibles s);
         b' = (if special b then b\<lparr>is_alive := False, special := False\<rparr>
               else b\<lparr>is_alive := False\<rparr>)
     in s\<lparr>ball := bl\<lparr>speed := speed bl * 1.015\<rparr>,
          bricks := (bricks s)[i := b'],
          collectibles := ks,
          game_state := add_score_for_brick r c g\<rparr>)"

text \<open>
  Lines 367-429: the scan over the grid. A dead brick is skipped (\<^verbatim>\<open>continue\<close>); the first
  live brick the ball overlaps is hit and the scan ends (\<^verbatim>\<open>goto after_brick\<close>).
\<close>

fun brick_loop :: "(nat \<times> nat) list \<Rightarrow> World \<Rightarrow> World" where
  "brick_loop [] s = s"
| "brick_loop ((r, c) # cells) s =
    (let b = bricks s ! brick_index r c
     in if \<not> is_alive b then brick_loop cells s
        else if rect_overlap (ball_rect (ball s)) (brick_rect b) then hit_brick r c s
        else brick_loop cells s)"

definition brick_collision :: "World \<Rightarrow> World" where
  "brick_collision s = (if \<not> is_held (ball s) then brick_loop grid_cells s else s)"

text \<open>Lines 433-451: the ball has left the field through the bottom.\<close>

definition ball_lost :: "World \<Rightarrow> World" where
  "ball_lost s =
    (if \<not> is_held (ball s) \<and> ball_y (ball s) > WINDOW_HEIGHT
     then
       let s1 = s\<lparr>game_state := (game_state s)\<lparr>lives := lives (game_state s) - 1\<rparr>\<rparr>
       in if lives (game_state s1) \<le> 0
          then
            let s2 = (if score (game_state s1) > high_score s1
                      then save_highscore (s1\<lparr>high_score := score (game_state s1)\<rparr>)
                      else s1);
                s3 = add_to_leaderboard (score (game_state s2)) s2
            in s3\<lparr>game_state := (game_state s3)\<lparr>show_menu := True, is_running := False\<rparr>\<rparr>
          else
            s1\<lparr>ball := (ball s1)\<lparr>is_held := True, speed := BALL_SPEED_INITIAL,
                                   vx := 0, vy := - 1\<rparr>,
                paddle := set_paddle_x ((WINDOW_WIDTH - paddle_w (paddle s1)) / 2) (paddle s1)\<rparr>
     else s)"

text \<open>Lines 453-466: no brick is left.\<close>

definition level_cleared :: "(nat \<Rightarrow> int) \<Rightarrow> World \<Rightarrow> World" where
  "level_cleared rnd s =
    (if bricks_remaining (game_state s) \<le> 0
     then
       let s1 = s\<lparr>game_state := (game_state s)\<lparr>level := level (game_state s) + 1\<rparr>\<rparr>
       in if level (game_state s1) > MAX_LEVELS
          then
            let s2 = (if score (game_state s1) > high_score s1
                      then save_highscore (s1\<lparr>high_score := score (game_state s1)\<rparr>)
                      else s1);
                s3 = add_to_leaderboard (score (game_state s2)) s2
            in s3\<lparr>game_state := (game_state s3)\<lparr>show_menu := True, is_running := False\<rparr>\<rparr>
          else reset_level rnd (level (game_state s1)) s1
     else s)"

text \<open>
  \<^verbatim>\<open>update_collectibles\<close>: each live collectible falls; one that overlaps the paddle is
  taken, and type 0 widens the paddle. The test against the paddle also runs for a
  collectible that has just left the field.
\<close>

fun update_collectibles_loop ::
  "real \<Rightarrow> Collectible list \<Rightarrow> Paddle \<Rightarrow> Collectible list \<times> Paddle" where
  "update_collectibles_loop dt [] p = ([], p)"
| "update_collectibles_loop dt (k # ks) p =
    (if \<not> coll_alive k
     then let (ks', p') = update_collectibles_loop dt ks p in (k # ks', p')
     else
       let k1 = k\<lparr>coll_rect := (coll_rect k)
                    \<lparr>rect_x := rect_x (coll_rect k) + coll_vx k * dt,
                     rect_y := rect_y (coll_rect k) + coll_vy k * dt\<rparr>\<rparr>;
           k2 = (if rect_y (coll_rect k1) > WINDOW_HEIGHT then k1\<lparr>coll_alive := False\<rparr> else k1)
       in if rect_overlap (coll_rect k2) (paddle_rect p)
          then
            let p1 = (if coll_type k2 = 0
                      then
                        let q = set_paddle_w (paddle_w p + 40) p;
                            q1 = (if paddle_w q > real_of_int (WINDOW_WIDTH div 2)
                                  then set_paddle_w (real_of_int (WINDOW_WIDTH div 2)) q else q)
                        in clamp_paddle_position q1
                      else p);
                (ks', p') = update_collectibles_loop dt ks p1
            in (k2\<lparr>coll_alive := False\<rparr> # ks', p')
          else let (ks', p') = update_collectibles_loop dt ks p in (k2 # ks', p'))"

definition update_collectibles :: "real \<Rightarrow> World \<Rightarrow> World" where
  "update_collectibles dt s =
    (let (ks, p) = update_collectibles_loop dt (collectibles s) (paddle s)
     in s\<lparr>collectibles := ks, paddle := p\<rparr>)"

text \<open>
  The ball of \<^verbatim>\<open>update_engine\<close> when the scan of the grid starts: it has moved and met the
  walls and the paddle. Then the state at the label \<^verbatim>\<open>after_brick\<close>, when the grid has been
  scanned.
\<close>

definition ball_before_bricks :: "real \<Rightarrow> World \<Rightarrow> Ball" where
  "ball_before_bricks dt s =
    paddle_collision (paddle s) (wall_collision (move_ball dt (paddle s) (ball s)))"

definition engine_after_brick :: "real \<Rightarrow> World \<Rightarrow> World" where
  "engine_after_brick dt s = brick_collision (s\<lparr>ball := ball_before_bricks dt s\<rparr>)"

definition playing :: "World \<Rightarrow> bool" where
  "playing s \<longleftrightarrow>
     is_running (game_state s) \<and> \<not> is_paused (game_state s) \<and> \<not> show_menu (game_state s)"

definition update_engine :: "(nat \<Rightarrow> int) \<Rightarrow> real \<Rightarrow> World \<Rightarrow> World" where
  "update_engine rnd dt s =
    (if \<not> is_running (game_state s) \<or> is_paused (game_state s) \<or> show_menu (game_state s)
     then s
     else update_collectibles dt (level_cleared rnd (ball_lost (engine_after_brick dt s))))"

section \<open>arkanoid\_full.c: input and the main loop\<close>

datatype keycode = SDLK_ESCAPE | SDLK_SPACE | SDLK_r | SDLK_m | SDLK_other

datatype SDL_Event =
  SDL_QUIT
  | SDL_KEYDOWN keycode
  | SDL_MOUSEMOTION int
  | SDL_MOUSEBUTTONDOWN int int
  | SDL_other

text \<open>
  What the space key and a click on the play button do while the menu is shown.
\<close>

definition start_play :: "(nat \<Rightarrow> int) \<Rightarrow> World \<Rightarrow> World" where
  "start_play rnd s =
    reset_level rnd (level (game_state s))
      (s\<lparr>game_state := (game_state s)\<lparr>show_menu := False, is_running := True\<rparr>\<rparr>)"

text \<open>The serve: a direction within 60 degrees of straight up, chosen by \<^verbatim>\<open>rand()\<close>.\<close>

definition serve_ball :: "(nat \<Rightarrow> int) \<Rightarrow> Ball \<Rightarrow> Ball" where
  "serve_ball rnd b =
    (let ang = real_of_int (c_mod (rnd 0) 120 - 60) * (pi / 180);
         vx1 = sin ang;
         vy1 = - \<bar>cos ang\<bar>;
         m = sqrt (vx1 * vx1 + vy1 * vy1)
     in b\<lparr>vx := vx1 / m, vy := vy1 / m, is_held := False\<rparr>)"

definition handle_input :: "(nat \<Rightarrow> int) \<Rightarrow> SDL_Event \<Rightarrow> World \<Rightarrow> World" where
  "handle_input rnd ev s =
    (case ev of
       SDL_QUIT \<Rightarrow> s\<lparr>game_state := (game_state s)\<lparr>is_running := False\<rparr>\<rparr>
     | SDL_KEYDOWN k \<Rightarrow>
         (case k of
            SDLK_ESCAPE \<Rightarrow>
              (if show_menu (game_state s)
               then s\<lparr>game_state := (game_state s)\<lparr>is_running := False\<rparr>\<rparr>
               else s\<lparr>game_state := (game_state s)\<lparr>show_menu := True\<rparr>\<rparr>)
          | SDLK_SPACE \<Rightarrow>
              (if show_menu (game_state s) then start_play rnd s
               else if is_paused (game_state s)
               then s\<lparr>game_state := (game_state s)\<lparr>is_paused := False\<rparr>\<rparr>
               else if is_held (ball s) then s\<lparr>ball := serve_ball rnd (ball s)\<rparr>
               else s\<lparr>game_state := (game_state s)\<lparr>is_paused := \<not> is_paused (game_state s)\<rparr>\<rparr>)
          | SDLK_r \<Rightarrow> reset_game rnd s
          | SDLK_m \<Rightarrow> s
          | SDLK_other \<Rightarrow> s)
     | SDL_MOUSEMOTION mx \<Rightarrow>
         s\<lparr>paddle := clamp_paddle_position
                        (set_paddle_x (real_of_int mx - paddle_w (paddle s) / 2) (paddle s))\<rparr>
     | SDL_MOUSEBUTTONDOWN mx my \<Rightarrow>
         (if show_menu (game_state s) \<and>
             mx \<ge> c_int_of_float (rect_x (menu_play_rect s)) \<and>
             mx \<le> c_int_of_float (rect_x (menu_play_rect s) + rect_w (menu_play_rect s)) \<and>
             my \<ge> c_int_of_float (rect_y (menu_play_rect s)) \<and>
             my \<le> c_int_of_float (rect_y (menu_play_rect s) + rect_h (menu_play_rect s))
          then start_play rnd s else s)
     | SDL_other \<Rightarrow> s)"

text \<open>Of \<^verbatim>\<open>render_scene\<close>, the one thing it writes: the rectangle of the play button.\<close>

definition render_scene :: "World \<Rightarrow> World" where
  "render_scene s =
    (if show_menu (game_state s)
     then s\<lparr>menu_play_rect :=
             \<lparr>rect_x = real_of_int ((WINDOW_WIDTH - 220) div 2), rect_y = real_of_int (80 + 180),
              rect_w = 220, rect_h = 72\<rparr>\<rparr>
     else s)"

text \<open>
  The move of the paddle in the main loop (lines 949-954): the keys give a velocity, the
  paddle moves by \<open>vx * dt\<close> and is clamped. \<open>left\<close> and \<open>right\<close> are the two tests on the
  keyboard state.
\<close>

definition keyboard_paddle :: "bool \<Rightarrow> bool \<Rightarrow> real \<Rightarrow> Paddle \<Rightarrow> Paddle" where
  "keyboard_paddle left right dt p =
    (let v0 = 0;
         v1 = (if left then - PADDLE_SPEED else v0);
         v2 = (if right then PADDLE_SPEED else v1)
     in clamp_paddle_position (set_paddle_x (paddle_x p + v2 * dt) p))"

text \<open>
  One pass through the body of the loop of \<^verbatim>\<open>main\<close>: the pending events, each with the
  results of the \<^verbatim>\<open>rand()\<close> calls it makes, the keyboard, the engine and the renderer.
  \<open>delta\<close> is the time measured since the last pass.
\<close>

definition main_loop_body ::
  "((nat \<Rightarrow> int) \<times> SDL_Event) list \<Rightarrow> bool \<Rightarrow> bool \<Rightarrow> (nat \<Rightarrow> int) \<Rightarrow> real \<Rightarrow> World \<Rightarrow> World" where
  "main_loop_body evs left right rnd delta s =
    (let delta_time = (if delta > 0.05 then 0.05 else delta);
         s1 = fold (\<lambda>(r, ev) w. handle_input r ev w) evs s;
         s2 = s1\<lparr>paddle := keyboard_paddle left right delta_time (paddle s1)\<rparr>
     in render_scene (update_engine rnd delta_time s2))"

text \<open>
  The globals when the loop of \<^verbatim>\<open>main\<close> is entered: zero-initialised, then set by
  \<^verbatim>\<open>initialize_all\<close> and the first lines of \<^verbatim>\<open>main\<close>, then \<^verbatim>\<open>reset_game\<close>. The three arguments
  are the file system.
\<close>

definition zero_rect :: RectF where
  "zero_rect = \<lparr>rect_x = 0, rect_y = 0, rect_w = 0, rect_h = 0\<rparr>"

definition initial_world ::
  "(int \<Rightarrow> string list option) \<Rightarrow> int option \<Rightarrow> int list option \<Rightarrow> bool \<Rightarrow> (nat \<Rightarrow> int) \<Rightarrow> World" where
  "initial_world lf hf lbf wr rnd =
    reset_game rnd
      (load_leaderboard (load_highscore
        \<lparr>paddle = \<lparr>paddle_rect = zero_rect\<lparr>rect_w := real_of_int PADDLE_WIDTH,
                                             rect_h := real_of_int PADDLE_HEIGHT\<rparr>,
                    velocity_x = 0\<rparr>,
         ball = \<lparr>ball_rect = zero_rect\<lparr>rect_w := real_of_int BALL_SIZE,
                                         rect_h := real_of_int BALL_SIZE\<rparr>,
                  vx = 0, vy = 0, speed = 0, is_held = False\<rparr>,
         bricks = replicate (BRICK_ROWS * BRICK_COLUMNS)
                    \<lparr>brick_rect = zero_rect, is_alive = False, color_index = 0, special = False\<rparr>,
         game_state = \<lparr>score = 0, lives = 0, level = 0, bricks_remaining = 0,
                        is_paused = False, is_running = False, show_menu = False\<rparr>,
         collectibles = replicate MAX_COLLECTIBLES
                    \<lparr>coll_rect = zero_rect, coll_vx = 0, coll_vy = 0, coll_alive = False,
                     coll_type = 0\<rparr>,
         menu_play_rect = zero_rect,
         high_score = 0,
         leaderboard = replicate LEADERBOARD_N 0,
         level_files = lf,
         highscore_file = hf,
         leaderboard_file = lbf,
         files_writable = wr,
         persist_log = []\<rparr>))"

text \<open>The states the program can be in at the top of its loop.\<close>

inductive reachable :: "World \<Rightarrow> bool" where
  reachable_init: "reachable (initial_world lf hf lbf wr rnd)"
| reachable_step: "reachable s \<Longrightarrow> is_running (game_state s) \<Longrightarrow>
     reachable (main_loop_body evs left right rnd delta s)"

section \<open>part\_000: the earlier SDL engine\<close>

text \<open>
  \<^verbatim>\<open>part_000\<close> has the same structs \<^verbatim>\<open>RectF\<close>, \<^verbatim>\<open>Paddle\<close>, \<^verbatim>\<open>Ball\<close> and \<^verbatim>\<open>GameState\<close> under shorter
  field names (\<^verbatim>\<open>r\<close> for \<^verbatim>\<open>rect\<close>, \<^verbatim>\<open>held\<close> for \<^verbatim>\<open>is_held\<close>, \<^verbatim>\<open>bricksRemaining\<close>, \<^verbatim>\<open>paused\<close>,
  \<^verbatim>\<open>running\<close>, \<^verbatim>\<open>showMenu\<close>); the records above are used for them. Its window, paddle,
  ball and brick sizes are those of \<^verbatim>\<open>arkanoid_full.c\<close> under the names \<^verbatim>\<open>WIN_W\<close>, \<^verbatim>\<open>WIN_H\<close>,
  \<^verbatim>\<open>PADDLE_W\<close>, \<^verbatim>\<open>BRICK_COLS\<close>, \<^verbatim>\<open>BRICK_W\<close>, \<^verbatim>\<open>BRICK_H\<close>, \<^verbatim>\<open>BRICK_PAD\<close>, and \<^verbatim>\<open>rectOverlap\<close>,
  \<^verbatim>\<open>clampPaddle\<close>, \<^verbatim>\<open>brickIndex\<close>, the ball's move, the walls and the push out of a brick are
  the same text as \<open>rect_overlap\<close>, \<open>clamp_paddle_position\<close>, \<open>brick_index\<close>, \<open>move_ball\<close>,
  \<open>wall_collision\<close> and \<open>brick_bounce\<close>, which stand for them. What differs is defined
  here. A macro whose name is taken already carries the suffix \<open>0\<close>.
\<close>

abbreviation (input) BALL_SPEED_INIT :: real where "BALL_SPEED_INIT \<equiv> 420"
abbreviation (input) BALL_SPEED_INC :: real where "BALL_SPEED_INC \<equiv> 1.03"
abbreviation (input) MAX_LEVELS0 :: int where "MAX_LEVELS0 \<equiv> 5"
abbreviation (input) MAX_LIVES :: int where "MAX_LIVES \<equiv> 3"

record Brick0 =
  brick0_r :: RectF
  brick0_vx :: real
  brick0_vy :: real
  alive :: bool
  colorIdx :: int

record World0 =
  gPaddle :: Paddle
  gBall :: Ball
  gBricks :: "Brick0 list"
  state :: GameState

text \<open>
  \<^verbatim>\<open>resetLevel\<close>: the layout is computed from the level alone. The counter \<^verbatim>\<open>aliveCount\<close>
  ends as the number of live bricks.
\<close>

definition resetLevel_cell :: "int \<Rightarrow> Brick0 \<Rightarrow> nat \<Rightarrow> nat \<Rightarrow> Brick0" where
  "resetLevel_cell lv b r c =
    (if lv \<le> 1 \<or> c_mod (int r + int c + lv) (1 + c_div lv 2) \<noteq> 0
     then b\<lparr>brick0_r := cell_rect r c, alive := True, colorIdx := c_mod (int r + int c + lv) 8\<rparr>
     else b\<lparr>brick0_r := cell_rect r c, alive := False, colorIdx := c_mod (int r + int c + lv) 8\<rparr>)"

definition resetLevel :: "int \<Rightarrow> World0 \<Rightarrow> World0" where
  "resetLevel lv s =
    (let bs = map (\<lambda>(r, c). resetLevel_cell lv (gBricks s ! brick_index r c) r c) grid_cells;
         aliveCount = int (length (filter alive bs));
         p = set_paddle_y (real_of_int (WINDOW_HEIGHT - PADDLE_Y_OFFSET))
               (set_paddle_x ((WINDOW_WIDTH - paddle_w (gPaddle s)) / 2) (gPaddle s));
         b = (gBall s)\<lparr>ball_rect := (ball_rect (gBall s))
                          \<lparr>rect_x := paddle_x p + (paddle_w p - ball_w (gBall s)) / 2,
                           rect_y := paddle_y p - ball_h (gBall s) - 2\<rparr>,
                        vx := 0, vy := - 1, speed := BALL_SPEED_INIT, is_held := True\<rparr>
     in s\<lparr>gBricks := bs, state := (state s)\<lparr>bricks_remaining := aliveCount\<rparr>,
          gPaddle := p, gBall := b\<rparr>)"

definition resetGame :: "World0 \<Rightarrow> World0" where
  "resetGame s =
    resetLevel 1
      (s\<lparr>state := (state s)\<lparr>score := 0, lives := MAX_LIVES, level := 1,
            is_paused := False, is_running := True, show_menu := True\<rparr>\<rparr>)"

text \<open>
  Lines 188-206 of \<^verbatim>\<open>updateEngine\<close>: the brick at \<open>(r, c)\<close> is hit. The value of the brick,
  \<open>10 + (level - 1) * 5\<close>, is small (the level does not pass \<open>MAX_LEVELS0 + 1\<close>); its sum
  with the score is what the 32-bit score stores.
\<close>

definition hitBrick :: "nat \<Rightarrow> nat \<Rightarrow> World0 \<Rightarrow> World0" where
  "hitBrick r c s =
    (let i = brick_index r c;
         b = gBricks s ! i;
         bl = brick_bounce (brick0_r b) (gBall s);
         g = (state s)\<lparr>bricks_remaining := bricks_remaining (state s) - 1\<rparr>;
         g1 = g\<lparr>score := c_int32 (score g + (10 + (level g - 1) * 5))\<rparr>
     in s\<lparr>gBall := bl\<lparr>speed := speed bl * 1.015\<rparr>,
          gBricks := (gBricks s)[i := b\<lparr>alive := False\<rparr>],
          state := g1\<rparr>)"

fun brickLoop :: "(nat \<times> nat) list \<Rightarrow> World0 \<Rightarrow> World0" where
  "brickLoop [] s = s"
| "brickLoop ((r, c) # cells) s =
    (let b = gBricks s ! brick_index r c
     in if \<not> alive b then brickLoop cells s
        else if rect_overlap (ball_rect (gBall s)) (brick0_r b) then hitBrick r c s
        else brickLoop cells s)"

text \<open>Lines 212-227: the ball fell below the field.\<close>

definition ballFell :: "World0 \<Rightarrow> World0" where
  "ballFell s =
    (if \<not> is_held (gBall s) \<and> ball_y (gBall s) > WINDOW_HEIGHT
     then
       let s1 = s\<lparr>state := (state s)\<lparr>lives := lives (state s) - 1\<rparr>\<rparr>
       in if lives (state s1) \<le> 0
          then s1\<lparr>state := (state s1)\<lparr>show_menu := True, is_running := False\<rparr>\<rparr>
          else
            s1\<lparr>gBall := (gBall s1)\<lparr>is_held := True, speed := BALL_SPEED_INIT,
                                     vx := 0, vy := - 1\<rparr>,
                gPaddle := set_paddle_x ((WINDOW_WIDTH - paddle_w (gPaddle s1)) / 2) (gPaddle s1)\<rparr>
     else s)"

text \<open>Lines 229-239: the level is cleared.\<close>

definition levelCleared :: "World0 \<Rightarrow> World0" where
  "levelCleared s =
    (if bricks_remaining (state s) \<le> 0
     then
       let s1 = s\<lparr>state := (state s)\<lparr>level := level (state s) + 1\<rparr>\<rparr>
       in if level (state s1) > MAX_LEVELS0
          then s1\<lparr>state := (state s1)\<lparr>show_menu := True, is_running := False\<rparr>\<rparr>
          else resetLevel (level (state s1)) s1
     else s)"

definition updateEngine :: "real \<Rightarrow> World0 \<Rightarrow> World0" where
  "updateEngine dt s =
    (if \<not> is_running (state s) \<or> is_paused (state s) \<or> show_menu (state s) then s
     else
       let s1 = s\<lparr>gBall := paddle_bounce BALL_SPEED_INC (gPaddle s)
                              (wall_collision (move_ball dt (gPaddle s) (gBall s)))\<rparr>;
           s2 = (if \<not> is_held (gBall s1) then brickLoop grid_cells s1 else s1)
       in levelCleared (ballFell s2))"

text \<open>\<^verbatim>\<open>handleInput\<close> and the body of the loop of \<^verbatim>\<open>main\<close>.\<close>

definition handleInput :: "(nat \<Rightarrow> int) \<Rightarrow> SDL_Event \<Rightarrow> World0 \<Rightarrow> World0" where
  "handleInput rnd ev s =
    (case ev of
       SDL_QUIT \<Rightarrow> s\<lparr>state := (state s)\<lparr>is_running := False\<rparr>\<rparr>
     | SDL_KEYDOWN k \<Rightarrow>
         (case k of
            SDLK_ESCAPE \<Rightarrow>
              (if show_menu (state s) then s\<lparr>state := (state s)\<lparr>is_running := False\<rparr>\<rparr>
               else s\<lparr>state := (state s)\<lparr>show_menu := True\<rparr>\<rparr>)
          | SDLK_SPACE \<Rightarrow>
              (if show_menu (state s)
               then resetLevel (level (state s))
                      (s\<lparr>state := (state s)\<lparr>show_menu := False, is_running := True\<rparr>\<rparr>)
               else if is_paused (state s) then s\<lparr>state := (state s)\<lparr>is_paused := False\<rparr>\<rparr>
               else if is_held (gBall s) then s\<lparr>gBall := serve_ball rnd (gBall s)\<rparr>
               else s\<lparr>state := (state s)\<lparr>is_paused := \<not> is_paused (state s)\<rparr>\<rparr>)
          | SDLK_r \<Rightarrow> resetGame s
          | SDLK_m \<Rightarrow> s
          | SDLK_other \<Rightarrow> s)
     | SDL_MOUSEMOTION mx \<Rightarrow>
         s\<lparr>gPaddle := clamp_paddle_position
                         (set_paddle_x (real_of_int mx - paddle_w (gPaddle s) / 2) (gPaddle s))\<rparr>
     | SDL_MOUSEBUTTONDOWN mx my \<Rightarrow> s
     | SDL_other \<Rightarrow> s)"

definition mainLoopBody ::
  "((nat \<Rightarrow> int) \<times> SDL_Event) list \<Rightarrow> bool \<Rightarrow> bool \<Rightarrow> real \<Rightarrow> World0 \<Rightarrow> World0" where
  "mainLoopBody evs left right delta s =
    (let deltaTime = (if delta > 0.05 then 0.05 else delta);
         s1 = fold (\<lambda>(r, ev) w. handleInput r ev w) evs s;
         s2 = s1\<lparr>gPaddle := keyboard_paddle left right deltaTime (gPaddle s1)\<rparr>
     in updateEngine deltaTime s2)"

text \<open>The globals when the loop is entered: zero, then the sizes, then \<^verbatim>\<open>resetGame\<close>.\<close>

definition initialWorld :: World0 where
  "initialWorld =
    resetGame
      \<lparr>gPaddle = \<lparr>paddle_rect = zero_rect\<lparr>rect_w := real_of_int PADDLE_WIDTH,
                                            rect_h := real_of_int PADDLE_HEIGHT\<rparr>,
                  velocity_x = 0\<rparr>,
       gBall = \<lparr>ball_rect = zero_rect\<lparr>rect_w := real_of_int BALL_SIZE,
                                        rect_h := real_of_int BALL_SIZE\<rparr>,
                vx = 0, vy = 0, speed = 0, is_held = False\<rparr>,
       gBricks = replicate (BRICK_ROWS * BRICK_COLUMNS)
                   \<lparr>brick0_r = zero_rect, brick0_vx = 0, brick0_vy = 0, alive = False,
                    colorIdx = 0\<rparr>,
       state = \<lparr>score = 0, lives = 0, level = 0, bricks_remaining = 0,
                 is_paused = False, is_running = False, show_menu = False\<rparr>\<rparr>"

inductive reachable0 :: "World0 \<Rightarrow> bool" where
  reachable0_init: "reachable0 initialWorld"
| reachable0_step: "reachable0 s \<Longrightarrow> is_running (state s) \<Longrightarrow>
     reachable0 (mainLoopBody evs left right delta s)"

section \<open>arkanoid.c: the Windows program\<close>

text \<open>
  The macros and struct fields of \<^verbatim>\<open>arkanoid.c\<close> carry the suffix \<open>_win\<close> or a prefix where
  their names are taken by the SDL programs. The 4 by 14 array \<^verbatim>\<open>bricks[row][col]\<close> is a list
  of rows.
\<close>

abbreviation (input) WINDOW_WIDTH_win :: int where "WINDOW_WIDTH_win \<equiv> 800"
abbreviation (input) WINDOW_HEIGHT_win :: int where "WINDOW_HEIGHT_win \<equiv> 600"
abbreviation (input) PADDLE_WIDTH_win :: int where "PADDLE_WIDTH_win \<equiv> 100"
abbreviation (input) PADDLE_HEIGHT_win :: int where "PADDLE_HEIGHT_win \<equiv> 20"
abbreviation (input) PADDLE_SPEED_win :: int where "PADDLE_SPEED_win \<equiv> 12"
abbreviation (input) PADDLE_Y :: int where "PADDLE_Y \<equiv> 600 - 80"
abbreviation (input) BALL_SIZE_win :: int where "BALL_SIZE_win \<equiv> 15"
abbreviation (input) BALL_SPEED :: int where "BALL_SPEED \<equiv> 6"
abbreviation (input) BRICK_ROWS_win :: nat where "BRICK_ROWS_win \<equiv> 4"
abbreviation (input) BRICK_COLS :: nat where "BRICK_COLS \<equiv> 14"
abbreviation (input) BRICK_WIDTH_win :: int where "BRICK_WIDTH_win \<equiv> 50"
abbreviation (input) BRICK_HEIGHT_win :: int where "BRICK_HEIGHT_win \<equiv> 20"
abbreviation (input) BRICK_PADDING_win :: int where "BRICK_PADDING_win \<equiv> 5"
abbreviation (input) BRICK_OFFSET_X :: int where "BRICK_OFFSET_X \<equiv> 15"
abbreviation (input) BRICK_OFFSET_Y :: int where "BRICK_OFFSET_Y \<equiv> 50"
abbreviation (input) MAX_LIVES_win :: int where "MAX_LIVES_win \<equiv> 3"
abbreviation (input) MAX_LEVELS_win :: int where "MAX_LEVELS_win \<equiv> 3"

record Ball_win =
  ball_cx :: real
  ball_cy :: real
  dx :: real
  dy :: real
  radius :: int
  ball_active :: bool

record Paddle_win =
  pad_x :: int
  pad_y :: int
  pad_width :: int
  pad_height :: int

record Brick_win =
  brk_x :: int
  brk_y :: int
  brk_width :: int
  brk_height :: int
  brk_active :: bool
  color_type :: int

record GameState_win =
  gs_score :: int
  gs_lives :: int
  gs_level :: int
  paused :: bool
  game_over :: bool
  victory :: bool

text \<open>
  The locals of \<^verbatim>\<open>WinMain\<close> that the loop works on, the array \<^verbatim>\<open>keys\<close>, the global \<^verbatim>\<open>running\<close>,
  and the file \<^verbatim>\<open>highscore.txt\<close>: the numbers written to it so far, one per line, and
  whether \<^verbatim>\<open>fopen(..., "a")\<close> succeeds.
\<close>

record World_win =
  w_ball :: Ball_win
  w_paddle :: Paddle_win
  w_bricks :: "Brick_win list list"
  w_state :: GameState_win
  w_keys :: "nat \<Rightarrow> bool"
  w_running :: bool
  highscore_txt :: "int list"
  highscore_txt_writable :: bool

definition init_ball :: "(nat \<Rightarrow> int) \<Rightarrow> Ball_win \<Rightarrow> Ball_win" where
  "init_ball rnd b =
    (let angle = real_of_int (c_mod (rnd 0) 90 - 45) * 3.14159 / 180
     in b\<lparr>ball_cx := real_of_int (WINDOW_WIDTH_win div 2),
          ball_cy := real_of_int (WINDOW_HEIGHT_win div 2),
          radius := BALL_SIZE_win div 2,
          dx := BALL_SPEED * sin angle,
          dy := BALL_SPEED * cos angle,
          ball_active := True\<rparr>)"

definition init_paddle :: "Paddle_win \<Rightarrow> Paddle_win" where
  "init_paddle p =
    p\<lparr>pad_x := (WINDOW_WIDTH_win - PADDLE_WIDTH_win) div 2, pad_y := PADDLE_Y,
      pad_width := PADDLE_WIDTH_win, pad_height := PADDLE_HEIGHT_win\<rparr>"

definition init_bricks :: "Brick_win list list" where
  "init_bricks =
    map (\<lambda>row. map (\<lambda>col.
          \<lparr>brk_x = BRICK_OFFSET_X + int col * (BRICK_WIDTH_win + BRICK_PADDING_win),
           brk_y = BRICK_OFFSET_Y + int row * (BRICK_HEIGHT_win + BRICK_PADDING_win),
           brk_width = BRICK_WIDTH_win, brk_height = BRICK_HEIGHT_win,
           brk_active = True, color_type = int row\<rparr>) [0 ..< BRICK_COLS]) [0 ..< BRICK_ROWS_win]"

definition init_game_state :: "GameState_win \<Rightarrow> GameState_win" where
  "init_game_state g =
    g\<lparr>gs_score := 0, gs_lives := MAX_LIVES_win, gs_level := 1,
      paused := False, game_over := False, victory := False\<rparr>"

definition grid_cells_win :: "(nat \<times> nat) list" where
  "grid_cells_win =
    concat (map (\<lambda>row. map (\<lambda>col. (row, col)) [0 ..< BRICK_COLS]) [0 ..< BRICK_ROWS_win])"

text \<open>
  Lines 166-192 of \<^verbatim>\<open>update_ball\<close>: the loop over all bricks. Every active brick that the
  ball touches is handled; the loop has no exit before its end.
\<close>

fun brick_loop_win ::
  "(nat \<times> nat) list \<Rightarrow> Ball_win \<times> Brick_win list list \<times> GameState_win \<Rightarrow>
     Ball_win \<times> Brick_win list list \<times> GameState_win" where
  "brick_loop_win [] (b, bs, g) = (b, bs, g)"
| "brick_loop_win ((row, col) # cells) (b, bs, g) =
    (let brick = bs ! row ! col
     in if \<not> brk_active brick then brick_loop_win cells (b, bs, g)
        else if ball_cx b + radius b \<ge> brk_x brick \<and>
                ball_cx b - radius b \<le> brk_x brick + brk_width brick \<and>
                ball_cy b + radius b \<ge> brk_y brick \<and>
                ball_cy b - radius b \<le> brk_y brick + brk_height brick
        then
          let bs1 = bs[row := (bs ! row)[col := brick\<lparr>brk_active := False\<rparr>]];
              g1 = g\<lparr>gs_score := c_int32 (gs_score g + (int BRICK_ROWS_win - int row) * 10)\<rparr>;
              brick_center_x = brk_x brick + brk_width brick / 2;
              brick_center_y = brk_y brick + brk_height brick / 2;
              dx_collision = ball_cx b - brick_center_x;
              dy_collision = ball_cy b - brick_center_y;
              b1 = (if \<bar>dx_collision / brk_width brick\<bar> > \<bar>dy_collision / brk_height brick\<bar>
                    then b\<lparr>dx := - dx b\<rparr> else b\<lparr>dy := - dy b\<rparr>)
          in brick_loop_win cells (b1, bs1, g1)
        else brick_loop_win cells (b, bs, g))"

definition update_ball ::
  "(nat \<Rightarrow> int) \<Rightarrow> Ball_win \<times> Paddle_win \<times> Brick_win list list \<times> GameState_win \<Rightarrow>
     Ball_win \<times> Paddle_win \<times> Brick_win list list \<times> GameState_win" where
  "update_ball rnd = (\<lambda>(b0, p, bs, g).
    if paused g \<or> game_over g \<or> victory g then (b0, p, bs, g)
    else
      let b1 = b0\<lparr>ball_cx := ball_cx b0 + dx b0, ball_cy := ball_cy b0 + dy b0\<rparr>;
          b2 = (if ball_cx b1 - radius b1 \<le> 0 \<or> ball_cx b1 + radius b1 \<ge> WINDOW_WIDTH_win
                then b1\<lparr>dx := - dx b1\<rparr> else b1);
          b3 = (if ball_cy b2 - radius b2 \<le> 0 then b2\<lparr>dy := - dy b2\<rparr> else b2)
      in if ball_cy b3 - radius b3 \<ge> WINDOW_HEIGHT_win
         then
           let g1 = g\<lparr>gs_lives := gs_lives g - 1\<rparr>
           in if gs_lives g1 \<le> 0 then (b3, p, bs, g1\<lparr>game_over := True\<rparr>)
              else (init_ball rnd b3, p, bs, g1)
         else
           let b4 = (if ball_cy b3 + radius b3 \<ge> pad_y p \<and>
                        ball_cy b3 - radius b3 \<le> pad_y p + pad_height p \<and>
                        ball_cx b3 \<ge> pad_x p \<and> ball_cx b3 \<le> pad_x p + pad_width p
                     then
                       let paddle_center = pad_x p + pad_width p / 2;
                           hit_pos = (ball_cx b3 - paddle_center) / (pad_width p / 2);
                           bounce_angle = hit_pos * 60 * 3.14159 / 180;
                           spd = sqrt (dx b3 * dx b3 + dy b3 * dy b3)
                       in b3\<lparr>dx := spd * sin bounce_angle,
                             dy := - \<bar>spd * cos bounce_angle\<bar>,
                             ball_cy := pad_y p - radius b3\<rparr>
                     else b3);
               (b5, bs1, g1) = brick_loop_win grid_cells_win (b4, bs, g);
               all_destroyed = list_all (\<lambda>row. list_all (\<lambda>brick. \<not> brk_active brick) row) bs1
           in if all_destroyed
              then
                let g2 = g1\<lparr>gs_level := gs_level g1 + 1\<rparr>
                in if gs_level g2 > MAX_LEVELS_win then (b5, p, bs1, g2\<lparr>victory := True\<rparr>)
                   else (init_ball rnd b5, p, init_bricks, g2)
              else (b5, p, bs1, g1))"

definition move_paddle_left :: "Paddle_win \<Rightarrow> Paddle_win" where
  "move_paddle_left p =
    (let p1 = p\<lparr>pad_x := pad_x p - PADDLE_SPEED_win\<rparr>
     in if pad_x p1 < 0 then p1\<lparr>pad_x := 0\<rparr> else p1)"

definition move_paddle_right :: "Paddle_win \<Rightarrow> Paddle_win" where
  "move_paddle_right p =
    (let p1 = p\<lparr>pad_x := pad_x p + PADDLE_SPEED_win\<rparr>
     in if pad_x p1 + pad_width p1 > WINDOW_WIDTH_win
        then p1\<lparr>pad_x := WINDOW_WIDTH_win - pad_width p1\<rparr> else p1)"

abbreviation (input) VK_LEFT :: nat where "VK_LEFT \<equiv> 37"
abbreviation (input) VK_RIGHT :: nat where "VK_RIGHT \<equiv> 39"

definition handle_paddle_input :: "(nat \<Rightarrow> bool) \<Rightarrow> GameState_win \<Rightarrow> Paddle_win \<Rightarrow> Paddle_win" where
  "handle_paddle_input ks g p =
    (if paused g \<or> game_over g \<or> victory g then p
     else
       let p1 = (if ks VK_LEFT \<or> ks (of_char CHR ''A'') then move_paddle_left p else p)
       in if ks VK_RIGHT \<or> ks (of_char CHR ''D'') then move_paddle_right p1 else p1)"

text \<open>\<^verbatim>\<open>save_score\<close> appends the score to \<^verbatim>\<open>highscore.txt\<close> when the file can be opened.\<close>

definition save_score :: "int \<Rightarrow> World_win \<Rightarrow> World_win" where
  "save_score sc s =
    (if highscore_txt_writable s then s\<lparr>highscore_txt := highscore_txt s @ [sc]\<rparr> else s)"

text \<open>
  The body of the loop of \<^verbatim>\<open>WinMain\<close> after the message pump (lines 534-567): the paddle,
  \<^verbatim>\<open>update_ball\<close>, and of the drawing the two calls of \<^verbatim>\<open>save_score\<close> that it makes when the
  game-over or victory overlay is shown.
\<close>

definition frame_win :: "(nat \<Rightarrow> int) \<Rightarrow> World_win \<Rightarrow> World_win" where
  "frame_win rnd s =
    (let p1 = handle_paddle_input (w_keys s) (w_state s) (w_paddle s);
         (b, p, bs, g) = update_ball rnd (w_ball s, p1, w_bricks s, w_state s);
         s1 = s\<lparr>w_ball := b, w_paddle := p, w_bricks := bs, w_state := g\<rparr>;
         s2 = (if game_over (w_state s1) then save_score (gs_score (w_state s1)) s1 else s1)
     in if victory (w_state s2) then save_score (gs_score (w_state s2)) s2 else s2)"

section \<open>The specification's resolver\<close>

text \<open>
  The specification names the side through which the ball is pushed out of a brick. The
  four depths are written as it gives them, and \<open>minimumPenetrationAxis\<close> follows its words:
  the smallest depth, and among equal depths the first in the order left, right, top,
  bottom. \<open>push_out\<close> is what the source does on the branch of each side.
\<close>

text \<open>
  The specification's \<open>u\<close> of the paddle bounce: the offset of the ball's centre from the
  paddle's centre, in half paddle widths, clamped to \<open>[-1, 1]\<close>.
\<close>

definition impact_offset :: "Paddle \<Rightarrow> Ball \<Rightarrow> real" where
  "impact_offset p b =
     max (- 1) (min 1 (((ball_x b + ball_w b / 2) - (paddle_x p + paddle_w p / 2)) / (paddle_w p / 2)))"

datatype axis = Axis_Left | Axis_Right | Axis_Top | Axis_Bottom

definition penetration :: "axis \<Rightarrow> RectF \<Rightarrow> RectF \<Rightarrow> real" where
  "penetration a moving static =
    (case a of
       Axis_Left \<Rightarrow> (rect_x moving + rect_w moving) - rect_x static
     | Axis_Right \<Rightarrow> (rect_x static + rect_w static) - rect_x moving
     | Axis_Top \<Rightarrow> (rect_y moving + rect_h moving) - rect_y static
     | Axis_Bottom \<Rightarrow> (rect_y static + rect_h static) - rect_y moving)"

definition axis_order :: "axis list" where
  "axis_order = [Axis_Left, Axis_Right, Axis_Top, Axis_Bottom]"

fun axis_rank :: "axis \<Rightarrow> nat" where
  "axis_rank Axis_Left = 0"
| "axis_rank Axis_Right = 1"
| "axis_rank Axis_Top = 2"
| "axis_rank Axis_Bottom = 3"

definition minimumPenetrationAxis :: "RectF \<Rightarrow> RectF \<Rightarrow> axis" where
  "minimumPenetrationAxis moving static =
    hd (filter
          (\<lambda>a. list_all (\<lambda>a'. penetration a moving static \<le> penetration a' moving static)
                  axis_order)
          axis_order)"

definition push_out :: "axis \<Rightarrow> RectF \<Rightarrow> Ball \<Rightarrow> Ball" where
  "push_out a br b =
    (case a of
       Axis_Left \<Rightarrow>
         (set_ball_x (ball_x b - penetration Axis_Left (ball_rect b) br) b)\<lparr>vx := - \<bar>vx b\<bar>\<rparr>
     | Axis_Right \<Rightarrow>
         (set_ball_x (ball_x b + penetration Axis_Right (ball_rect b) br) b)\<lparr>vx := \<bar>vx b\<bar>\<rparr>
     | Axis_Top \<Rightarrow>
         (set_ball_y (ball_y b - penetration Axis_Top (ball_rect b) br) b)\<lparr>vy := - \<bar>vy b\<bar>\<rparr>
     | Axis_Bottom \<Rightarrow>
         (set_ball_y (ball_y b + penetration Axis_Bottom (ball_rect b) br) b)\<lparr>vy := \<bar>vy b\<bar>\<rparr>)"

section \<open>Notions used in the proofs about the leaderboard\<close>

text \<open>
  The inner loop of \<^verbatim>\<open>add_to_leaderboard\<close> for one \<open>i\<close>, stopped when \<open>j\<close> reaches \<open>k\<close>; the
  outer loop stopped when \<open>i\<close> reaches \<open>k\<close>; and the fact that the loops establish: each of
  the first \<open>k\<close> entries is at least as large as every entry after it.
\<close>

definition inner_loop :: "nat \<Rightarrow> nat \<Rightarrow> int list \<Rightarrow> int list" where
  "inner_loop i k t = fold (swap_if_greater i) [i + 1 ..< k] t"

definition outer_loop :: "nat \<Rightarrow> int list \<Rightarrow> int list" where
  "outer_loop k t = fold (\<lambda>i t. fold (swap_if_greater i) [i + 1 ..< length t] t) [0 ..< k] t"

definition dominates :: "nat \<Rightarrow> int list \<Rightarrow> bool" where
  "dominates k t \<longleftrightarrow> (\<forall>a b. a < k \<longrightarrow> a < b \<longrightarrow> b < length t \<longrightarrow> t ! b \<le> t ! a)"

section \<open>Notions used in the proofs about the paddle\<close>

text \<open>The paddle is no wider than the field and lies inside it.\<close>

definition paddle_ok :: "Paddle \<Rightarrow> bool" where
  "paddle_ok p \<longleftrightarrow> paddle_w p \<le> WINDOW_WIDTH \<and> 0 \<le> paddle_x p \<and> paddle_x p \<le> WINDOW_WIDTH - paddle_w p"

section \<open>Notions used in the proofs about the bricks\<close>

text \<open>
  Brick \<open>i\<close> is live and overlaps the ball of the state; and the same for the ball as it is
  when the scan of the grid starts in a step from \<open>s\<close>.
\<close>

definition brick_hit_at :: "World \<Rightarrow> nat \<Rightarrow> bool" where
  "brick_hit_at s i \<longleftrightarrow>
     is_alive (bricks s ! i) \<and> rect_overlap (ball_rect (ball s)) (brick_rect (bricks s ! i))"

definition overlaps_live :: "real \<Rightarrow> World \<Rightarrow> nat \<Rightarrow> bool" where
  "overlaps_live dt s i \<longleftrightarrow>
     is_alive (bricks s ! i) \<and>
     rect_overlap (ball_rect (ball_before_bricks dt s)) (brick_rect (bricks s ! i))"

text \<open>The array holds its 84 bricks and \<^verbatim>\<open>bricks_remaining\<close> is the number of live ones.\<close>

definition bricks_counted :: "World \<Rightarrow> bool" where
  "bricks_counted s \<longleftrightarrow>
     length (bricks s) = BRICK_ROWS * BRICK_COLUMNS \<and>
     bricks_remaining (game_state s) = count_alive (bricks s)"

section \<open>Notions used in the theorems about the end of a session\<close>

text \<open>
  The calls of \<^verbatim>\<open>add_to_leaderboard\<close> among the recorded calls, and the calls made between
  two states.
\<close>

fun is_add_to_leaderboard :: "persist_call \<Rightarrow> bool" where
  "is_add_to_leaderboard (Add_To_Leaderboard sc) = True"
| "is_add_to_leaderboard (Save_Leaderboard l) = False"
| "is_add_to_leaderboard (Save_Highscore sc) = False"

definition new_calls :: "World \<Rightarrow> World \<Rightarrow> persist_call list" where
  "new_calls s s' = drop (length (persist_log s)) (persist_log s')"

text \<open>
  The two parts of the body of the loop of \<^verbatim>\<open>main\<close> that come before \<^verbatim>\<open>update_engine\<close>: the
  clamp of the measured time to a twentieth of a second, and the state that the pending
  events and the keyboard leave for the engine.
\<close>

definition delta_time :: "real \<Rightarrow> real" where
  "delta_time delta = (if delta > 0.05 then 0.05 else delta)"

definition engine_input ::
  "((nat \<Rightarrow> int) \<times> SDL_Event) list \<Rightarrow> bool \<Rightarrow> bool \<Rightarrow> real \<Rightarrow> World \<Rightarrow> World" where
  "engine_input evs left right delta s =
    (let s1 = fold (\<lambda>(r, ev) w. handle_input r ev w) evs s
     in s1\<lparr>paddle := keyboard_paddle left right (delta_time delta) (paddle s1)\<rparr>)"

text \<open>
  What holds of the court in every state the loop reaches: the bricks are counted and
  stand where \<^verbatim>\<open>reset_level\<close> puts them, the ball has its size, the paddle its height above
  the bottom edge, and the speed is not negative. And while the game runs with no brick
  left, which is the case only after \<^verbatim>\<open>reset_level\<close> has loaded a level file without bricks,
  the ball is in the field and is held or does not move down.
\<close>

definition court_base :: "World \<Rightarrow> bool" where
  "court_base s \<longleftrightarrow>
     bricks_counted s \<and>
     map brick_rect (bricks s) = map (\<lambda>(r, c). cell_rect r c) grid_cells \<and>
     ball_h (ball s) = real_of_int BALL_SIZE \<and>
     paddle_y (paddle s) = real_of_int (WINDOW_HEIGHT - PADDLE_Y_OFFSET) \<and>
     0 \<le> speed (ball s)"

definition court_ok :: "World \<Rightarrow> bool" where
  "court_ok s \<longleftrightarrow>
     court_base s \<and>
     (bricks_remaining (game_state s) \<le> 0 \<and> is_running (game_state s) \<longrightarrow>
        ball_y (ball s) \<le> WINDOW_HEIGHT \<and> (is_held (ball s) \<or> vy (ball s) \<le> 0))"

section \<open>Notions used in the theorems about the score\<close>

text \<open>
  The level of \<^verbatim>\<open>part_000\<close> is at least 1, and at most \<open>MAX_LEVELS0\<close> while the game runs.
\<close>

definition level_ok :: "GameState \<Rightarrow> bool" where
  "level_ok g \<longleftrightarrow> 1 \<le> level g \<and> (is_running g \<longrightarrow> level g \<le> MAX_LEVELS0)"

section \<open>Notions used in the theorems about the layout\<close>

text \<open>The test of the procedural layout that decides whether the brick at \<open>(r, c)\<close> lives.\<close>

definition fallback_alive :: "int \<Rightarrow> nat \<Rightarrow> nat \<Rightarrow> bool" where
  "fallback_alive lv r c \<longleftrightarrow> lv \<le> 1 \<or> c_mod (int r + int c + lv) (1 + c_div lv 2) \<noteq> 0"

section \<open>Concrete inputs\<close>

text \<open>A ball and a brick whose left and top depths are equal (both 5).\<close>

definition tie_ball :: Ball where
  "tie_ball = \<lparr>ball_rect = \<lparr>rect_x = 0, rect_y = 0, rect_w = 10, rect_h = 10\<rparr>,
               vx = 3 / 5, vy = - 4 / 5, speed = 420, is_held = False\<rparr>"

definition tie_brick :: RectF where
  "tie_brick = \<lparr>rect_x = 5, rect_y = 5, rect_w = 10, rect_h = 10\<rparr>"

text \<open>A state in the menu with a full leaderboard and no data files.\<close>

definition w0 :: World where
  "w0 = \<lparr>paddle = \<lparr>paddle_rect = \<lparr>rect_x = 410, rect_y = 576, rect_w = 140, rect_h = 18\<rparr>, velocity_x = 0\<rparr>,
         ball = \<lparr>ball_rect = \<lparr>rect_x = 473, rect_y = 560, rect_w = 14, rect_h = 14\<rparr>,
                  vx = 0, vy = - 1, speed = 420, is_held = True\<rparr>,
         bricks = [],
         game_state = \<lparr>score = 0, lives = 3, level = 1, bricks_remaining = 0,
                        is_paused = False, is_running = True, show_menu = True\<rparr>,
         collectibles = [],
         menu_play_rect = zero_rect,
         high_score = 0,
         leaderboard = [50, 40, 30, 20, 10],
         level_files = (\<lambda>_. None),
         highscore_file = None,
         leaderboard_file = None,
         files_writable = True,
         persist_log = []\<rparr>"

text \<open>
  The state in which the loop of \<^verbatim>\<open>main\<close> starts when there are no level or data files and
  every \<^verbatim>\<open>rand()\<close> returns 1.
\<close>

definition start_world :: World where
  "start_world = initial_world (\<lambda>_. None) None None True (\<lambda>_. 1)"

text \<open>
  A grid of 84 live bricks, and a state in play whose ball lies across the gap between
  the first two bricks of the top row.
\<close>

definition full_grid :: "Brick list" where
  "full_grid = map (\<lambda>(r, c). \<lparr>brick_rect = cell_rect r c, is_alive = True,
                                 color_index = c_mod (int r + int c + 1) 10, special = False\<rparr>) grid_cells"

definition two_brick_world :: World where
  "two_brick_world = w0
     \<lparr>ball := \<lparr>ball_rect = \<lparr>rect_x = 70, rect_y = 100, rect_w = 14, rect_h = 14\<rparr>,
               vx = 0, vy = - 1, speed = 420, is_held = False\<rparr>,
      bricks := full_grid,
      game_state := \<lparr>score = 0, lives = 3, level = 1, bricks_remaining = 84,
                      is_paused = False, is_running = True, show_menu = False\<rparr>\<rparr>"

text \<open>
  A state of \<^verbatim>\<open>arkanoid.c\<close>: the ball moves straight up and, after its move, touches the
  first two bricks of the bottom row from below.
\<close>

definition win_ball_between :: Ball_win where
  "win_ball_between = \<lparr>ball_cx = 67.5, ball_cy = 153, dx = 0, dy = - 3, radius = 7, ball_active = True\<rparr>"

definition win_paddle0 :: Paddle_win where
  "win_paddle0 = \<lparr>pad_x = 350, pad_y = 520, pad_width = 100, pad_height = 20\<rparr>"

definition win_state0 :: GameState_win where
  "win_state0 = \<lparr>gs_score = 0, gs_lives = 3, gs_level = 1, paused = False, game_over = False, victory = False\<rparr>"

text \<open>
  A state in play whose ball moves down and overlaps the middle of the paddle, far below
  the bricks.
\<close>

definition bounce_world :: World where
  "bounce_world = two_brick_world
     \<lparr>ball := \<lparr>ball_rect = \<lparr>rect_x = 473, rect_y = 565, rect_w = 14, rect_h = 14\<rparr>,
               vx = 0, vy = 1, speed = 420, is_held = False\<rparr>\<rparr>"

text \<open>
  A state of \<^verbatim>\<open>arkanoid.c\<close> on its last life, with a score of 30, whose ball leaves the
  field on its next move; no key is down and \<^verbatim>\<open>highscore.txt\<close> is empty.
\<close>

definition win_lost_world :: World_win where
  "win_lost_world =
     \<lparr>w_ball = \<lparr>ball_cx = 400, ball_cy = 610, dx = 0, dy = 3, radius = 7, ball_active = True\<rparr>,
      w_paddle = win_paddle0,
      w_bricks = init_bricks,
      w_state = \<lparr>gs_score = 30, gs_lives = 1, gs_level = 1, paused = False, game_over = False,
                  victory = False\<rparr>,
      w_keys = (\<lambda>_. False),
      w_running = True,
      highscore_txt = [],
      highscore_txt_writable = True\<rparr>"

text \<open>
  The state of \<^verbatim>\<open>part_000\<close> after the first pass of its loop, in which the space key starts
  the game from the menu.
\<close>

definition started0 :: World0 where
  "started0 = mainLoopBody [(\<lambda>_. 60, SDL_KEYDOWN SDLK_SPACE)] False False 0 initialWorld"

text \<open>
  A session of \<^verbatim>\<open>arkanoid_full.c\<close> without level or data files, in which no special brick and
  no collectible appears. \<open>in_play\<close> is a state in play at level 1 with the given score,
  lives, bricks, brick counter, paddle position and ball; \<open>ball_at\<close> is a ball in the sixth
  column with no sideways motion.
\<close>

definition dead_collectibles :: "Collectible list" where
  "dead_collectibles = replicate MAX_COLLECTIBLES
     \<lparr>coll_rect = zero_rect, coll_vx = 0, coll_vy = 0, coll_alive = False, coll_type = 0\<rparr>"

definition ball_at :: "real \<Rightarrow> real \<Rightarrow> real \<Rightarrow> bool \<Rightarrow> Ball" where
  "ball_at y v sp held =
     \<lparr>ball_rect = \<lparr>rect_x = 433, rect_y = y, rect_w = 14, rect_h = 14\<rparr>,
      vx = 0, vy = v, speed = sp, is_held = held\<rparr>"

definition in_play :: "int \<Rightarrow> int \<Rightarrow> Brick list \<Rightarrow> int \<Rightarrow> real \<Rightarrow> Ball \<Rightarrow> World" where
  "in_play sc lvs bs n px b =
     \<lparr>paddle = \<lparr>paddle_rect = \<lparr>rect_x = px, rect_y = 576, rect_w = 140, rect_h = 18\<rparr>, velocity_x = 0\<rparr>,
      ball = b,
      bricks = bs,
      game_state = \<lparr>score = sc, lives = lvs, level = 1, bricks_remaining = n,
                     is_paused = False, is_running = True, show_menu = False\<rparr>,
      collectibles = dead_collectibles,
      menu_play_rect = zero_rect,
      high_score = 0,
      leaderboard = replicate LEADERBOARD_N 0,
      level_files = (\<lambda>_. None),
      highscore_file = None,
      leaderboard_file = None,
      files_writable = True,
      persist_log = []\<rparr>"

text \<open>
  The states the session passes through: \<open>armed\<close>, the ball held on the paddle under the
  sixth column with all 84 bricks in place; \<open>flying\<close>, the ball in flight with the paddle at
  the left edge; \<open>one_gone\<close>, the grid without the brick of the bottom row in that column;
  and \<open>last_life_world\<close>, the ball falling on the last life, one pass above the bottom
  edge.
\<close>

definition armed :: "int \<Rightarrow> int \<Rightarrow> World" where
  "armed sc lvs = in_play sc lvs full_grid 84 370 (ball_at 560 (- 1) 420 True)"

definition one_gone :: "Brick list" where
  "one_gone = full_grid[77 := (full_grid ! 77)\<lparr>is_alive := False\<rparr>]"

definition flying :: "int \<Rightarrow> int \<Rightarrow> Brick list \<Rightarrow> int \<Rightarrow> real \<Rightarrow> real \<Rightarrow> real \<Rightarrow> World" where
  "flying sc lvs bs n y v sp = in_play sc lvs bs n 0 (ball_at y v sp False)"

definition last_life_world :: World where
  "last_life_world = flying 30 1 one_gone 83 (15926 / 25) 1 (4263 / 10)"

text \<open>
  The state of \<^verbatim>\<open>part_000\<close> after the serve straight up from \<open>started0\<close>, with the ball at
  height \<open>y\<close>.
\<close>

definition flying0 :: "real \<Rightarrow> World0" where
  "flying0 y = started0\<lparr>gBall := \<lparr>ball_rect = \<lparr>rect_x = 473, rect_y = y, rect_w = 14, rect_h = 14\<rparr>,
                                   vx = 0, vy = - 1, speed = 420, is_held = False\<rparr>\<rparr>"

section \<open>Geometry: theorems\<close>

text \<open>
  Claim C7. The overlap test gives the same answer in both orders of its arguments, and it
  is false exactly when one rectangle ends at or before the place where the other
  begins, on the horizontal or on the vertical axis: rectangles that only touch do not
  overlap.
\<close>

theorem rect_overlap_symmetric_strict:
  "rect_overlap a b = rect_overlap b a \<and>
   (rect_overlap a b \<longleftrightarrow>
      rect_x b < rect_x a + rect_w a \<and> rect_x a < rect_x b + rect_w b \<and>
      rect_y b < rect_y a + rect_h a \<and> rect_y a < rect_y b + rect_h b) \<and>
   (\<not> rect_overlap a b \<longleftrightarrow>
      rect_x a + rect_w a \<le> rect_x b \<or> rect_x b + rect_w b \<le> rect_x a \<or>
      rect_y a + rect_h a \<le> rect_y b \<or> rect_y b + rect_h b \<le> rect_y a)"
  by (auto simp: rect_overlap_def)

section \<open>The resolver: theorems\<close>

lemma axis_all: "(\<forall>a. P a) \<longleftrightarrow> P Axis_Left \<and> P Axis_Right \<and> P Axis_Top \<and> P Axis_Bottom"
  by (metis axis.exhaust)

lemma first_minimal:
  fixes d :: "axis \<Rightarrow> real"
  shows "hd (filter (\<lambda>a. list_all (\<lambda>a'. d a \<le> d a') axis_order) axis_order) =
    (if d Axis_Left \<le> d Axis_Right \<and> d Axis_Left \<le> d Axis_Top \<and> d Axis_Left \<le> d Axis_Bottom
     then Axis_Left
     else if d Axis_Right \<le> d Axis_Top \<and> d Axis_Right \<le> d Axis_Bottom \<and> d Axis_Right \<le> d Axis_Left
     then Axis_Right
     else if d Axis_Top \<le> d Axis_Bottom \<and> d Axis_Top \<le> d Axis_Left \<and> d Axis_Top \<le> d Axis_Right then Axis_Top
     else Axis_Bottom)"
  by (auto simp: axis_order_def)

lemma minimumPenetrationAxis_cases:
  "minimumPenetrationAxis m st =
    (let d = (\<lambda>a. penetration a m st) in
     if d Axis_Left \<le> d Axis_Right \<and> d Axis_Left \<le> d Axis_Top \<and> d Axis_Left \<le> d Axis_Bottom
     then Axis_Left
     else if d Axis_Right \<le> d Axis_Top \<and> d Axis_Right \<le> d Axis_Bottom \<and> d Axis_Right \<le> d Axis_Left
     then Axis_Right
     else if d Axis_Top \<le> d Axis_Bottom \<and> d Axis_Top \<le> d Axis_Left \<and> d Axis_Top \<le> d Axis_Right then Axis_Top
     else Axis_Bottom)"
  unfolding minimumPenetrationAxis_def Let_def by (rule first_minimal)

lemma brick_bounce_cases:
  "brick_bounce br b =
    push_out
    (let d = (\<lambda>a. penetration a (ball_rect b) br) in
     if d Axis_Left \<le> d Axis_Right \<and> d Axis_Left \<le> d Axis_Top \<and> d Axis_Left \<le> d Axis_Bottom
     then Axis_Left
     else if d Axis_Right \<le> d Axis_Top \<and> d Axis_Right \<le> d Axis_Bottom \<and> d Axis_Right \<le> d Axis_Left
     then Axis_Right
     else if d Axis_Top \<le> d Axis_Bottom \<and> d Axis_Top \<le> d Axis_Left \<and> d Axis_Top \<le> d Axis_Right
     then Axis_Top
     else Axis_Bottom) br b"
proof -
  define l where "l = (ball_x b + ball_w b) - rect_x br"
  define r where "r = (rect_x br + rect_w br) - ball_x b"
  define t where "t = (ball_y b + ball_h b) - rect_y br"
  define u where "u = (rect_y br + rect_h br) - ball_y b"
  have ml: "min (min (min l r) t) u = l \<longleftrightarrow> l \<le> r \<and> l \<le> t \<and> l \<le> u" by (auto simp: min_def)
  have mr: "min (min (min l r) t) u = r \<longleftrightarrow> r \<le> l \<and> r \<le> t \<and> r \<le> u" by (auto simp: min_def)
  have mt: "min (min (min l r) t) u = t \<longleftrightarrow> t \<le> l \<and> t \<le> r \<and> t \<le> u" by (auto simp: min_def)
  show ?thesis
    unfolding brick_bounce_def push_out_def penetration_def Let_def axis.case
    unfolding l_def[symmetric] r_def[symmetric] t_def[symmetric] u_def[symmetric] ml mr mt
    by auto
qed

text \<open>
  Claim C2. What the resolver does to the ball is the push through the side that
  \<open>minimumPenetrationAxis\<close> names: no side has a smaller depth, and every side with the
  same depth comes later in the order left, right, top, bottom. This holds for every
  ball and brick rectangle, overlapping or not. The code of \<^verbatim>\<open>part_000\<close> (lines 190-198) is
  the same text.
\<close>

theorem brick_bounce_minimum_axis:
  "brick_bounce br b = push_out (minimumPenetrationAxis (ball_rect b) br) br b \<and>
   (\<forall>a. penetration (minimumPenetrationAxis (ball_rect b) br) (ball_rect b) br
          \<le> penetration a (ball_rect b) br) \<and>
   (\<forall>a. penetration a (ball_rect b) br
          = penetration (minimumPenetrationAxis (ball_rect b) br) (ball_rect b) br \<longrightarrow>
        axis_rank (minimumPenetrationAxis (ball_rect b) br) \<le> axis_rank a)"
proof -
  define d where "d = (\<lambda>a. penetration a (ball_rect b) br)"
  have 1: "brick_bounce br b = push_out (minimumPenetrationAxis (ball_rect b) br) br b"
    unfolding minimumPenetrationAxis_cases by (rule brick_bounce_cases)
  have 2: "d (minimumPenetrationAxis (ball_rect b) br) \<le> d a" for a
    unfolding minimumPenetrationAxis_cases Let_def d_def[symmetric]
    by (cases a) (auto split: if_splits)
  have 3: "d a = d (minimumPenetrationAxis (ball_rect b) br) \<Longrightarrow>
        axis_rank (minimumPenetrationAxis (ball_rect b) br) \<le> axis_rank a" for a
    unfolding minimumPenetrationAxis_cases Let_def d_def[symmetric]
    by (cases a) (auto split: if_splits)
  from 1 2 3 show ?thesis unfolding d_def by blast
qed

theorem brick_bounce_minimum_axis_witness:
  "penetration Axis_Left (ball_rect tie_ball) tie_brick = penetration Axis_Top (ball_rect tie_ball) tie_brick \<and>
   minimumPenetrationAxis (ball_rect tie_ball) tie_brick = Axis_Left \<and>
   brick_bounce tie_brick tie_ball = push_out Axis_Left tie_brick tie_ball \<and>
   axis_rank (minimumPenetrationAxis (ball_rect tie_ball) tie_brick) \<le> axis_rank Axis_Top"
proof -
  have m: "minimumPenetrationAxis (ball_rect tie_ball) tie_brick = Axis_Left"
    by (simp add: minimumPenetrationAxis_def axis_order_def penetration_def tie_ball_def tie_brick_def)
  have e: "penetration Axis_Left (ball_rect tie_ball) tie_brick = penetration Axis_Top (ball_rect tie_ball) tie_brick"
    by (simp add: penetration_def tie_ball_def tie_brick_def)
  from brick_bounce_minimum_axis [of tie_brick tie_ball] m e show ?thesis
    by simp
qed

section \<open>The leaderboard: theorems\<close>

lemma swap_if_greater_length [simp]: "length (swap_if_greater i j t) = length t"
  by (simp add: swap_if_greater_def)

lemma swap_if_greater_mset:
  "i < length t \<Longrightarrow> j < length t \<Longrightarrow> mset (swap_if_greater i j t) = mset t"
  by (simp add: swap_if_greater_def mset_swap)

lemma swap_if_greater_nth:
  "i < length t \<Longrightarrow> j < length t \<Longrightarrow> i \<noteq> j \<Longrightarrow> a < length t \<Longrightarrow>
   swap_if_greater i j t ! a =
     (if a = i then max (t ! i) (t ! j) else if a = j then min (t ! i) (t ! j) else t ! a)"
  by (auto simp: swap_if_greater_def nth_list_update)

lemma inner_loop_Suc: "i < k \<Longrightarrow> inner_loop i (Suc k) t = swap_if_greater i k (inner_loop i k t)"
  by (simp add: inner_loop_def)

lemma inner_loop_base: "inner_loop i (Suc i) t = t"
  by (simp add: inner_loop_def)

lemma inner_loop_inv:
  "i < k \<Longrightarrow> k \<le> length t \<Longrightarrow>
   length (inner_loop i k t) = length t \<and>
   mset (inner_loop i k t) = mset t \<and>
   (\<forall>a. a < length t \<longrightarrow> (a < i \<or> k \<le> a) \<longrightarrow> inner_loop i k t ! a = t ! a) \<and>
   (\<forall>j. i < j \<longrightarrow> j < k \<longrightarrow> inner_loop i k t ! j \<le> inner_loop i k t ! i) \<and>
   (\<forall>b. i \<le> b \<longrightarrow> b < length t \<longrightarrow> (\<exists>b'. i \<le> b' \<and> b' < length t \<and> inner_loop i k t ! b = t ! b'))"
proof (induction k)
  case 0
  then show ?case by simp
next
  case (Suc k)
  show ?case
  proof (cases "i = k")
    case True
    then show ?thesis by (auto simp: inner_loop_base)
  next
    case False
    with Suc.prems have ik: "i < k" and kl: "k < length t" by auto
    let ?u = "inner_loop i k t"
    from Suc.IH ik kl have
      len: "length ?u = length t" and ms: "mset ?u = mset t"
      and out: "\<And>a. a < length t \<Longrightarrow> a < i \<or> k \<le> a \<Longrightarrow> ?u ! a = t ! a"
      and dom: "\<And>j. i < j \<Longrightarrow> j < k \<Longrightarrow> ?u ! j \<le> ?u ! i"
      and perm: "\<And>b. i \<le> b \<Longrightarrow> b < length t \<Longrightarrow> \<exists>b'. i \<le> b' \<and> b' < length t \<and> ?u ! b = t ! b'"
      by auto
    have step: "inner_loop i (Suc k) t = swap_if_greater i k ?u"
      using ik by (rule inner_loop_Suc)
    have il: "i < length ?u" and kl': "k < length ?u" using ik kl len by auto
    have nth: "\<And>a. a < length t \<Longrightarrow> swap_if_greater i k ?u ! a =
        (if a = i then max (?u ! i) (?u ! k) else if a = k then min (?u ! i) (?u ! k) else ?u ! a)"
      using swap_if_greater_nth[OF il kl'] ik len by auto
    have 1: "length (inner_loop i (Suc k) t) = length t" by (simp add: step len)
    have 2: "mset (inner_loop i (Suc k) t) = mset t"
      by (simp add: step swap_if_greater_mset[OF il kl'] ms)
    have 3: "\<forall>a. a < length t \<longrightarrow> (a < i \<or> Suc k \<le> a) \<longrightarrow> inner_loop i (Suc k) t ! a = t ! a"
      using ik by (auto simp: step nth out)
    have 4: "\<forall>j. i < j \<longrightarrow> j < Suc k \<longrightarrow> inner_loop i (Suc k) t ! j \<le> inner_loop i (Suc k) t ! i"
    proof (intro allI impI)
      fix j assume "i < j" "j < Suc k"
      then show "inner_loop i (Suc k) t ! j \<le> inner_loop i (Suc k) t ! i"
        using ik kl dom[of j] by (cases "j = k") (auto simp: step nth)
    qed
    have 5: "\<forall>b. i \<le> b \<longrightarrow> b < length t \<longrightarrow> (\<exists>b'. i \<le> b' \<and> b' < length t \<and> inner_loop i (Suc k) t ! b = t ! b')"
    proof (intro allI impI)
      fix b assume b: "i \<le> b" "b < length t"
      have pi: "\<exists>b'. i \<le> b' \<and> b' < length t \<and> ?u ! i = t ! b'" using perm[of i] ik kl by auto
      have pk: "\<exists>b'. i \<le> b' \<and> b' < length t \<and> ?u ! k = t ! b'" using perm[of k] ik kl by auto
      have pb: "\<exists>b'. i \<le> b' \<and> b' < length t \<and> ?u ! b = t ! b'" using perm[of b] b by auto
      show "\<exists>b'. i \<le> b' \<and> b' < length t \<and> inner_loop i (Suc k) t ! b = t ! b'"
        using pi pk pb b by (auto simp: step nth max_def min_def)
    qed
    from 1 2 3 4 5 show ?thesis by blast
  qed
qed

lemma dominates_step:
  assumes "dominates i t" "i < length t"
  shows "dominates (Suc i) (inner_loop i (length t) t)"
proof -
  let ?u = "inner_loop i (length t) t"
  from inner_loop_inv[of i "length t" t] assms(2) have
      len: "length ?u = length t"
      and out: "\<And>a. a < i \<Longrightarrow> ?u ! a = t ! a"
      and dom: "\<And>j. i < j \<Longrightarrow> j < length t \<Longrightarrow> ?u ! j \<le> ?u ! i"
      and perm: "\<And>b. i \<le> b \<Longrightarrow> b < length t \<Longrightarrow> \<exists>b'. i \<le> b' \<and> b' < length t \<and> ?u ! b = t ! b'"
    by auto
  show ?thesis
    unfolding dominates_def
  proof (intro allI impI)
    fix a b assume a: "a < Suc i" and ab: "a < b" and b: "b < length ?u"
    show "?u ! b \<le> ?u ! a"
    proof (cases "a = i")
      case True
      then show ?thesis using dom[of b] ab b len by simp
    next
      case False
      with a have ai: "a < i" by simp
      show ?thesis
      proof (cases "b < i")
        case True
        then show ?thesis using assms(1) ai ab b len out[of a] out[of b] by (auto simp: dominates_def)
      next
        case False
        then obtain b' where "i \<le> b'" "b' < length t" "?u ! b = t ! b'"
          using perm[of b] b len by auto
        then show ?thesis using assms(1) ai out[of a] by (auto simp: dominates_def)
      qed
    qed
  qed
qed

lemma inner_loop_length: "length (inner_loop i k t) = length t"
  unfolding inner_loop_def by (induction k) (auto)

lemma outer_loop_inv:
  "k \<le> length t \<Longrightarrow>
   length (outer_loop k t) = length t \<and> mset (outer_loop k t) = mset t \<and> dominates k (outer_loop k t)"
proof (induction k)
  case 0
  then show ?case by (simp add: outer_loop_def dominates_def)
next
  case (Suc k)
  let ?u = "outer_loop k t"
  from Suc have len: "length ?u = length t" and ms: "mset ?u = mset t" and d: "dominates k ?u"
    by auto
  have step: "outer_loop (Suc k) t = inner_loop k (length ?u) ?u"
    by (simp add: outer_loop_def inner_loop_def)
  have k: "k < length ?u" using Suc.prems len by simp
  from inner_loop_inv[of k "length ?u" ?u] k
  have "length (inner_loop k (length ?u) ?u) = length ?u" "mset (inner_loop k (length ?u) ?u) = mset ?u"
    by auto
  with dominates_step[OF d k] show ?case by (simp add: step len ms)
qed

lemma sort_loops_outer: "length t = n \<Longrightarrow> sort_loops n t = outer_loop n t"
proof -
  assume n: "length t = n"
  have "\<And>k u. length u = n \<Longrightarrow> k \<le> n \<Longrightarrow>
      fold (\<lambda>i t. fold (swap_if_greater i) [i + 1 ..< n] t) [0 ..< k] u = outer_loop k u
      \<and> length (outer_loop k u) = n"
  proof -
    fix k u show "length u = n \<Longrightarrow> k \<le> n \<Longrightarrow>
      fold (\<lambda>i t. fold (swap_if_greater i) [i + 1 ..< n] t) [0 ..< k] u = outer_loop k u
      \<and> length (outer_loop k u) = n"
    proof (induction k)
      case 0 then show ?case by (simp add: outer_loop_def)
    next
      case (Suc k)
      then have IH: "fold (\<lambda>i t. fold (swap_if_greater i) [i + 1 ..< n] t) [0 ..< k] u = outer_loop k u"
        and l: "length (outer_loop k u) = n" by auto
      have "outer_loop (Suc k) u = fold (swap_if_greater k) [k + 1 ..< length (outer_loop k u)] (outer_loop k u)"
        by (simp add: outer_loop_def)
      then show ?case using IH l outer_loop_inv[of "Suc k" u] Suc.prems by simp
    qed
  qed
  from this[of t n] n show ?thesis by (simp add: sort_loops_def)
qed

lemma sort_loops_sorted:
  assumes "length t = n"
  shows "sort_loops n t = rev (sort t)"
proof -
  let ?u = "sort_loops n t"
  from outer_loop_inv[of n t] assms sort_loops_outer[OF assms]
  have len: "length ?u = n" and ms: "mset ?u = mset t" and d: "dominates n ?u" by auto
  have "sorted_wrt (\<ge>) ?u"
    unfolding sorted_wrt_iff_nth_less using d len by (auto simp: dominates_def)
  then have "sorted (rev ?u)" by (simp add: sorted_wrt_rev)
  moreover have "mset (rev ?u) = mset t" using ms by simp
  ultimately have "sort t = rev ?u" using properties_for_sort by blast
  then show ?thesis by (metis rev_rev_ident)
qed

text \<open>
  Claim C9. For a score above 0 and a leaderboard of \<open>LEADERBOARD_N = 5\<close> entries,
  \<^verbatim>\<open>add_to_leaderboard\<close> leaves in memory the five largest of the old entries and the new
  score, in descending order; it calls \<^verbatim>\<open>save_leaderboard\<close> on that list, which stores it in
  the file whenever the file can be opened for writing; and the new score is in the list
  exactly when it is at least as large as the smallest entry of the list.
\<close>

theorem add_to_leaderboard_top_n:
  assumes "0 < sc" and "length (leaderboard s) = LEADERBOARD_N"
  shows "leaderboard (add_to_leaderboard sc s)
           = take LEADERBOARD_N (rev (sort (leaderboard s @ [sc]))) \<and>
         persist_log (add_to_leaderboard sc s)
           = persist_log s @ [Add_To_Leaderboard sc,
                              Save_Leaderboard (leaderboard (add_to_leaderboard sc s))] \<and>
         leaderboard_file (add_to_leaderboard sc s)
           = (if files_writable s then Some (leaderboard (add_to_leaderboard sc s))
              else leaderboard_file s) \<and>
         (sc \<in> set (leaderboard (add_to_leaderboard sc s))
            \<longleftrightarrow> Min (set (leaderboard (add_to_leaderboard sc s))) \<le> sc)"
proof -
  let ?tmp = "leaderboard s @ [sc]"
  let ?new = "take LEADERBOARD_N (rev (sort ?tmp))"
  have srt: "sort_loops (LEADERBOARD_N + 1) ?tmp = rev (sort ?tmp)"
    by (rule sort_loops_sorted) (simp add: assms(2))
  have lb: "leaderboard (add_to_leaderboard sc s) = ?new"
    using assms srt by (simp add: add_to_leaderboard_def save_leaderboard_def Let_def)
  have fl: "leaderboard_file (add_to_leaderboard sc s)
           = (if files_writable s then Some (leaderboard (add_to_leaderboard sc s))
              else leaderboard_file s)"
    using assms by (simp add: add_to_leaderboard_def save_leaderboard_def Let_def)
  have lg: "persist_log (add_to_leaderboard sc s)
           = persist_log s @ [Add_To_Leaderboard sc,
                              Save_Leaderboard (leaderboard (add_to_leaderboard sc s))]"
    using assms by (simp add: add_to_leaderboard_def save_leaderboard_def Let_def)
  have len: "length (rev (sort ?tmp)) = 6" using assms(2) by simp
  have desc: "sorted_wrt (\<ge>) (rev (sort ?tmp))" unfolding sorted_wrt_rev by (rule sorted_sort)
  have l5: "length ?new = 5" using len by simp
  have ne: "?new \<noteq> []"
  proof
    assume "?new = []"
    then have "length ?new = 0" by (simp only: list.size)
    with l5 show False by simp
  qed
  have mem: "sc \<in> set (rev (sort ?tmp))" by simp
  have "sc \<in> set ?new \<longleftrightarrow> Min (set ?new) \<le> sc"
  proof
    assume "sc \<in> set ?new" then show "Min (set ?new) \<le> sc" by simp
  next
    assume le: "Min (set ?new) \<le> sc"
    from mem obtain k where k: "k < 6" "rev (sort ?tmp) ! k = sc"
      using len by (metis in_set_conv_nth)
    show "sc \<in> set ?new"
    proof (cases "k < 5")
      case True
      then have "?new ! k = sc" using k by simp
      moreover have "k < length ?new" using True len by simp
      ultimately show ?thesis by (metis nth_mem)
    next
      case False
      with k have k5: "k = 5" by simp
      have "Min (set ?new) \<in> set ?new" using ne by (intro Min_in) auto
      then obtain j where j: "j < length ?new" "?new ! j = Min (set ?new)"
        by (metis in_set_conv_nth)
      then have j5: "j < 5" using len by simp
      then have "rev (sort ?tmp) ! j = Min (set ?new)" using j by simp
      moreover have "rev (sort ?tmp) ! 5 \<le> rev (sort ?tmp) ! j"
        using desc j5 len by (simp add: sorted_wrt_iff_nth_less)
      ultimately have "sc = Min (set ?new)" using le k k5 by simp
      then show ?thesis using \<open>Min (set ?new) \<in> set ?new\<close> by simp
    qed
  qed
  with lb fl lg show ?thesis by simp
qed

theorem add_to_leaderboard_top_n_witness:
  "leaderboard (add_to_leaderboard 35 w0) = [50, 40, 35, 30, 20] \<and>
   leaderboard_file (add_to_leaderboard 35 w0) = Some [50, 40, 35, 30, 20] \<and>
   35 \<in> set (leaderboard (add_to_leaderboard 35 w0))"
proof -
  have a: "(0::int) < 35" by simp
  have b: "length (leaderboard w0) = LEADERBOARD_N" by (simp add: w0_def)
  have c: "files_writable w0" by (simp add: w0_def)
  have d: "take LEADERBOARD_N (rev (sort (leaderboard w0 @ [35]))) = [50, 40, 35, 30, 20]"
    by (simp add: w0_def)
  from add_to_leaderboard_top_n[OF a b] c d show ?thesis by simp
qed

text \<open>
  Claim C10. With a score of 0 or less \<^verbatim>\<open>add_to_leaderboard\<close> returns at once: nothing but
  the record of the call itself changes. The leaderboard in memory and both data files
  are as before, and \<^verbatim>\<open>save_leaderboard\<close> is not called.
\<close>

theorem add_to_leaderboard_nonpositive:
  assumes "sc \<le> 0"
  shows "add_to_leaderboard sc s = s\<lparr>persist_log := persist_log s @ [Add_To_Leaderboard sc]\<rparr> \<and>
         leaderboard (add_to_leaderboard sc s) = leaderboard s \<and>
         leaderboard_file (add_to_leaderboard sc s) = leaderboard_file s \<and>
         highscore_file (add_to_leaderboard sc s) = highscore_file s \<and>
         (\<forall>l. Save_Leaderboard l \<notin> set (drop (length (persist_log s)) (persist_log (add_to_leaderboard sc s))))"
  using assms by (simp add: add_to_leaderboard_def Let_def)

theorem add_to_leaderboard_nonpositive_witness:
  "add_to_leaderboard 0 w0 = w0\<lparr>persist_log := [Add_To_Leaderboard 0]\<rparr> \<and>
   leaderboard (add_to_leaderboard 0 w0) = [50, 40, 30, 20, 10] \<and>
   leaderboard_file (add_to_leaderboard 0 w0) = None"
proof -
  have a: "(0::int) \<le> 0" by simp
  from add_to_leaderboard_nonpositive[OF a, of w0] show ?thesis by (simp add: w0_def)
qed

section \<open>The paddle: theorems\<close>

lemma clamp_paddle_position_bounds:
  "paddle_w p \<le> WINDOW_WIDTH \<Longrightarrow> paddle_ok (clamp_paddle_position p)"
  by (auto simp: clamp_paddle_position_def paddle_ok_def Let_def)

lemma clamp_paddle_position_w [simp]: "paddle_w (clamp_paddle_position p) = paddle_w p"
  by (auto simp: clamp_paddle_position_def Let_def)

lemma keyboard_paddle_ok: "paddle_w p \<le> WINDOW_WIDTH \<Longrightarrow> paddle_ok (keyboard_paddle left right dt p)"
  unfolding keyboard_paddle_def Let_def by (rule clamp_paddle_position_bounds) simp

lemma keyboard_paddle_w [simp]: "paddle_w (keyboard_paddle left right dt p) = paddle_w p"
  by (simp add: keyboard_paddle_def Let_def)

lemma paddle_load_level: "load_level_from_file lv s = Some s' \<Longrightarrow> paddle s' = paddle s"
  by (auto simp: load_level_from_file_def Let_def split: option.splits)

lemma paddle_reset_level:
  "paddle (reset_level rnd lv s) =
     set_paddle_y (real_of_int (WINDOW_HEIGHT - PADDLE_Y_OFFSET))
       (set_paddle_x ((WINDOW_WIDTH - paddle_w (paddle s)) / 2) (paddle s))"
  by (auto simp: reset_level_def Let_def paddle_load_level split: option.splits prod.splits)

lemma centred_ok: "paddle_w p \<le> WINDOW_WIDTH \<Longrightarrow>
   paddle_ok (set_paddle_y v (set_paddle_x ((WINDOW_WIDTH - paddle_w p) / 2) p))"
  by (simp add: paddle_ok_def)

lemma reset_level_ok: "paddle_w (paddle s) \<le> WINDOW_WIDTH \<Longrightarrow> paddle_ok (paddle (reset_level rnd lv s))"
  unfolding paddle_reset_level by (rule centred_ok)

lemma reset_game_ok: "paddle_w (paddle s) \<le> WINDOW_WIDTH \<Longrightarrow> paddle_ok (paddle (reset_game rnd s))"
  unfolding reset_game_def by (rule reset_level_ok) simp

lemma start_play_ok: "paddle_w (paddle s) \<le> WINDOW_WIDTH \<Longrightarrow> paddle_ok (paddle (start_play rnd s))"
  unfolding start_play_def by (rule reset_level_ok) simp

lemma handle_input_ok: "paddle_ok (paddle s) \<Longrightarrow> paddle_ok (paddle (handle_input rnd ev s))"
proof -
  assume ok: "paddle_ok (paddle s)"
  then have w: "paddle_w (paddle s) \<le> WINDOW_WIDTH" by (simp add: paddle_ok_def)
  show ?thesis
  proof (cases ev)
    case (SDL_KEYDOWN k)
    then show ?thesis using ok reset_game_ok[OF w] start_play_ok[OF w]
      by (cases k) (auto simp: handle_input_def)
  next
    case (SDL_MOUSEMOTION mx)
    then show ?thesis using w by (simp add: handle_input_def clamp_paddle_position_bounds)
  next
    case (SDL_MOUSEBUTTONDOWN mx my)
    then show ?thesis using ok start_play_ok[OF w] by (simp add: handle_input_def)
  qed (use ok in \<open>simp_all add: handle_input_def\<close>)
qed

lemma handle_inputs_ok:
  "paddle_ok (paddle s) \<Longrightarrow> paddle_ok (paddle (fold (\<lambda>(r, ev) w. handle_input r ev w) evs s))"
  by (induction evs arbitrary: s) (auto simp: handle_input_ok)

lemma paddle_hit_brick [simp]: "paddle (hit_brick r c s) = paddle s"
  by (simp add: hit_brick_def Let_def)

lemma paddle_brick_loop [simp]: "paddle (brick_loop cells s) = paddle s"
  by (induction cells s rule: brick_loop.induct) (simp_all add: Let_def)

lemma paddle_engine_after_brick [simp]: "paddle (engine_after_brick dt s) = paddle s"
  by (simp add: engine_after_brick_def brick_collision_def)

lemma paddle_save_highscore [simp]: "paddle (save_highscore s) = paddle s"
  by (simp add: save_highscore_def Let_def)

lemma paddle_add_to_leaderboard [simp]: "paddle (add_to_leaderboard sc s) = paddle s"
  by (simp add: add_to_leaderboard_def save_leaderboard_def Let_def)

lemma ball_lost_ok: "paddle_ok (paddle s) \<Longrightarrow> paddle_ok (paddle (ball_lost s))"
  by (auto simp: ball_lost_def Let_def paddle_ok_def)

lemma level_cleared_ok: "paddle_ok (paddle s) \<Longrightarrow> paddle_ok (paddle (level_cleared rnd s))"
proof -
  assume ok: "paddle_ok (paddle s)"
  then have w: "paddle_w (paddle s) \<le> WINDOW_WIDTH" by (simp add: paddle_ok_def)
  show ?thesis using ok reset_level_ok[of "s\<lparr>game_state := (game_state s)\<lparr>level := level (game_state s) + 1\<rparr>\<rparr>" rnd] w
    by (auto simp: level_cleared_def Let_def)
qed

lemma update_collectibles_loop_ok:
  "paddle_ok p \<Longrightarrow> paddle_ok (snd (update_collectibles_loop dt ks p))"
proof (induction ks arbitrary: p)
  case Nil
  then show ?case by simp
next
  case (Cons k ks)
  let ?q = "set_paddle_w (paddle_w p + 40) p"
  let ?q1 = "if paddle_w ?q > real_of_int (WINDOW_WIDTH div 2)
             then set_paddle_w (real_of_int (WINDOW_WIDTH div 2)) ?q else ?q"
  have wide: "paddle_ok (clamp_paddle_position ?q1)"
    by (rule clamp_paddle_position_bounds) auto
  show ?case using Cons.IH[OF Cons.prems] Cons.IH[OF wide]
    by (auto simp: Let_def split: prod.splits)
qed

lemma update_collectibles_ok: "paddle_ok (paddle s) \<Longrightarrow> paddle_ok (paddle (update_collectibles dt s))"
  using update_collectibles_loop_ok[of "paddle s" dt "collectibles s"]
  by (auto simp: update_collectibles_def split: prod.splits)

lemma update_engine_ok: "paddle_ok (paddle s) \<Longrightarrow> paddle_ok (paddle (update_engine rnd dt s))"
proof -
  assume ok: "paddle_ok (paddle s)"
  then have "paddle_ok (paddle (engine_after_brick dt s))" by simp
  then show ?thesis
    by (auto simp: update_engine_def intro!: update_collectibles_ok level_cleared_ok ball_lost_ok ok)
qed

lemma paddle_render_scene [simp]: "paddle (render_scene s) = paddle s"
  by (simp add: render_scene_def)

lemma main_loop_body_ok:
  "paddle_ok (paddle s) \<Longrightarrow> paddle_ok (paddle (main_loop_body evs left right rnd delta s))"
proof -
  assume ok: "paddle_ok (paddle s)"
  let ?s1 = "fold (\<lambda>(r, ev) w. handle_input r ev w) evs s"
  have 1: "paddle_ok (paddle ?s1)" using ok by (rule handle_inputs_ok)
  then have w: "paddle_w (paddle ?s1) \<le> WINDOW_WIDTH" by (simp add: paddle_ok_def)
  show ?thesis
    unfolding main_loop_body_def Let_def paddle_render_scene
    by (rule update_engine_ok) (simp add: keyboard_paddle_ok[OF w])
qed

lemma initial_world_ok: "paddle_ok (paddle (initial_world lf hf lbf wr rnd))"
  unfolding initial_world_def
  by (rule reset_game_ok) (simp add: load_leaderboard_def load_highscore_def zero_rect_def split: option.splits)

lemma reachable_paddle_ok: "reachable s \<Longrightarrow> paddle_ok (paddle s)"
  by (induction rule: reachable.induct) (simp_all add: initial_world_ok main_loop_body_ok)

text \<open>
  Claim C6. For a paddle no wider than the field, the move of the main loop, with any of
  the three velocities the keys can give and any \<open>dt\<close>, leaves the paddle's \<open>x\<close> between 0
  and \<open>WINDOW_WIDTH - paddle.rect.w\<close>. The same bound holds in every state the program
  reaches at the top of its loop, and after a pointer-move event handled in such a state.
\<close>

theorem paddle_stays_in_field:
  "(paddle_w p \<le> WINDOW_WIDTH \<longrightarrow>
      0 \<le> paddle_x (keyboard_paddle left right dt p) \<and>
      paddle_x (keyboard_paddle left right dt p)
        \<le> WINDOW_WIDTH - paddle_w (keyboard_paddle left right dt p)) \<and>
   (reachable s \<longrightarrow>
      0 \<le> paddle_x (paddle s) \<and> paddle_x (paddle s) \<le> WINDOW_WIDTH - paddle_w (paddle s)) \<and>
   (reachable s \<longrightarrow>
      0 \<le> paddle_x (paddle (handle_input rnd (SDL_MOUSEMOTION mx) s)) \<and>
      paddle_x (paddle (handle_input rnd (SDL_MOUSEMOTION mx) s))
        \<le> WINDOW_WIDTH - paddle_w (paddle (handle_input rnd (SDL_MOUSEMOTION mx) s)))"
  using keyboard_paddle_ok[of p left right dt] reachable_paddle_ok[of s]
    handle_input_ok[of s rnd "SDL_MOUSEMOTION mx"]
  by (simp add: paddle_ok_def)

theorem paddle_stays_in_field_witness:
  "paddle_w (paddle w0) \<le> WINDOW_WIDTH \<and>
   paddle_x (keyboard_paddle False True 2 (paddle w0)) = 820 \<and>
   0 \<le> paddle_x (keyboard_paddle False True 2 (paddle w0)) \<and>
   paddle_x (keyboard_paddle False True 2 (paddle w0))
     \<le> WINDOW_WIDTH - paddle_w (keyboard_paddle False True 2 (paddle w0)) \<and>
   reachable start_world \<and>
   0 \<le> paddle_x (paddle start_world) \<and>
   paddle_x (paddle start_world) \<le> WINDOW_WIDTH - paddle_w (paddle start_world) \<and>
   0 \<le> paddle_x (paddle (handle_input (\<lambda>_. 1) (SDL_MOUSEMOTION 2000) start_world)) \<and>
   paddle_x (paddle (handle_input (\<lambda>_. 1) (SDL_MOUSEMOTION 2000) start_world))
     \<le> WINDOW_WIDTH - paddle_w (paddle (handle_input (\<lambda>_. 1) (SDL_MOUSEMOTION 2000) start_world))"
proof -
  have a: "paddle_w (paddle w0) \<le> WINDOW_WIDTH" by (simp add: w0_def)
  have b: "paddle_x (keyboard_paddle False True 2 (paddle w0)) = 820"
    by (simp add: w0_def keyboard_paddle_def clamp_paddle_position_def Let_def)
  have c: "reachable start_world" unfolding start_world_def by (rule reachable_init)
  from paddle_stays_in_field[of "paddle w0" False True 2 start_world "\<lambda>_. 1" 2000] a b c
  show ?thesis by simp
qed

section \<open>The bricks: theorems\<close>

lemma brick_index_grid_cells: "map (\<lambda>(r, c). brick_index r c) grid_cells = [0 ..< BRICK_ROWS * BRICK_COLUMNS]"
  by (simp add: grid_cells_def brick_index_def upt_rec)

lemma brick_loop_find:
  "brick_loop cells s =
    (case find (\<lambda>(r, c). brick_hit_at s (brick_index r c)) cells of
       None \<Rightarrow> s
     | Some (r, c) \<Rightarrow> hit_brick r c s)"
  by (induction cells s rule: brick_loop.induct) (auto simp: Let_def brick_hit_at_def)

lemma find_map_index:
  "find (\<lambda>x. P (f x)) xs = Some y \<Longrightarrow> find P (map f xs) = Some (f y)"
  by (induction xs) (auto split: if_splits)

lemma find_append_cases:
  "find P (xs @ ys) = (case find P xs of None \<Rightarrow> find P ys | Some x \<Rightarrow> Some x)"
  by (induction xs) auto

lemma find_upt_least:
  "find P [0 ..< n] = Some k \<Longrightarrow> P k \<and> k < n \<and> (\<forall>m < k. \<not> P m)"
proof (induction n)
  case 0 then show ?case by simp
next
  case (Suc n)
  show ?case
  proof (cases "find P [0 ..< n]")
    case None
    then have no: "\<forall>m < n. \<not> P m" by (auto simp: find_None_iff)
    from Suc.prems None have "k = n \<and> P n" by (auto simp: find_append_cases split: if_splits)
    with no show ?thesis by auto
  next
    case (Some a)
    with Suc.prems have "a = k" by (simp add: find_append_cases)
    with Some Suc.IH show ?thesis by auto
  qed
qed

lemma find_upt_some: "P i \<Longrightarrow> i < n \<Longrightarrow> \<exists>k. find P [0 ..< n] = Some k"
  by (cases "find P [0 ..< n]") (auto simp: find_None_iff)

lemma find_grid_cells_None:
  assumes "find (\<lambda>(r, c). P (brick_index r c)) grid_cells = None"
  shows "\<forall>i < BRICK_ROWS * BRICK_COLUMNS. \<not> P i"
proof -
  from assms have "\<forall>x \<in> set grid_cells. \<not> P ((\<lambda>(r, c). brick_index r c) x)"
    by (auto simp: find_None_iff)
  then have "\<forall>i \<in> set (map (\<lambda>(r, c). brick_index r c) grid_cells). \<not> P i" by auto
  then show ?thesis unfolding brick_index_grid_cells by simp
qed

lemma find_grid_cells_Some:
  assumes "find (\<lambda>(r, c). P (brick_index r c)) grid_cells = Some (r, c)"
  shows "P (brick_index r c) \<and> brick_index r c < BRICK_ROWS * BRICK_COLUMNS \<and>
         (\<forall>m < brick_index r c. \<not> P m)"
proof -
  have "find (\<lambda>x. P ((\<lambda>(r, c). brick_index r c) x)) grid_cells = Some (r, c)"
    using assms by (simp add: case_prod_unfold)
  from find_map_index[of P "\<lambda>(r, c). brick_index r c" grid_cells "(r, c)", OF this]
  have "find P [0 ..< BRICK_ROWS * BRICK_COLUMNS] = Some (brick_index r c)"
    unfolding brick_index_grid_cells by simp
  from find_upt_least[OF this] show ?thesis .
qed

text \<open>
  The scan either leaves the state alone, when no live brick overlaps the ball, or hits
  the live overlapping brick of least index.
\<close>

lemma brick_loop_grid:
  "(\<forall>i < BRICK_ROWS * BRICK_COLUMNS. \<not> brick_hit_at s i) \<and> brick_loop grid_cells s = s \<or>
   (\<exists>r c. brick_hit_at s (brick_index r c) \<and> brick_index r c < BRICK_ROWS * BRICK_COLUMNS \<and>
          (\<forall>m < brick_index r c. \<not> brick_hit_at s m) \<and> brick_loop grid_cells s = hit_brick r c s)"
proof (cases "find (\<lambda>(r, c). brick_hit_at s (brick_index r c)) grid_cells")
  case None
  with find_grid_cells_None[OF None] show ?thesis by (simp add: brick_loop_find)
next
  case (Some a)
  obtain r c where a: "a = (r, c)" by (cases a)
  from find_grid_cells_Some[OF Some[unfolded a]] Some a show ?thesis
    by (auto simp: brick_loop_find)
qed

lemma filter_alive_kill:
  "i < length bs \<Longrightarrow> is_alive (bs ! i) \<Longrightarrow> \<not> is_alive b' \<Longrightarrow>
   Suc (length (filter is_alive (bs[i := b']))) = length (filter is_alive bs)"
proof (induction bs arbitrary: i)
  case Nil
  then show ?case by simp
next
  case (Cons b bs)
  then show ?case by (cases i) auto
qed

lemma count_alive_kill:
  assumes "i < length bs" "is_alive (bs ! i)" "\<not> is_alive b'"
  shows "count_alive (bs[i := b']) = count_alive bs - 1"
  using filter_alive_kill[OF assms] by (simp add: count_alive_def)

lemma is_held_move_ball [simp]: "is_held (move_ball dt p b) = is_held b"
  by (simp add: move_ball_def)

lemma is_held_wall_collision [simp]: "is_held (wall_collision b) = is_held b"
  by (simp add: wall_collision_def Let_def)

lemma is_held_paddle_bounce [simp]: "is_held (paddle_bounce g p b) = is_held b"
  by (simp add: paddle_bounce_def Let_def)

lemma is_held_ball_before_bricks [simp]: "is_held (ball_before_bricks dt s) = is_held (ball s)"
  by (simp add: ball_before_bricks_def paddle_collision_def)

lemma bricks_hit_brick:
  "bricks (hit_brick r c s) =
     (bricks s)[brick_index r c := (bricks s ! brick_index r c)\<lparr>is_alive := False, special := False\<rparr>]"
proof -
  have e: "\<not> special b \<Longrightarrow> b\<lparr>is_alive := False\<rparr> = b\<lparr>is_alive := False, special := False\<rparr>"
    for b :: Brick by (cases b) simp
  show ?thesis
  proof (cases "special (bricks s ! brick_index r c)")
    case True
    then show ?thesis by (simp add: hit_brick_def Let_def)
  next
    case False
    have "bricks (hit_brick r c s) =
        (bricks s)[brick_index r c := (bricks s ! brick_index r c)\<lparr>is_alive := False\<rparr>]"
      using False by (simp add: hit_brick_def Let_def)
    also have "(bricks s ! brick_index r c)\<lparr>is_alive := False\<rparr> =
        (bricks s ! brick_index r c)\<lparr>is_alive := False, special := False\<rparr>"
      by (rule e[OF False])
    finally show ?thesis .
  qed
qed

lemma bricks_remaining_hit_brick:
  "bricks_remaining (game_state (hit_brick r c s)) = bricks_remaining (game_state s) - 1"
  by (simp add: hit_brick_def Let_def add_score_for_brick_def)

lemma game_state_save_highscore [simp]: "game_state (save_highscore s) = game_state s"
  by (simp add: save_highscore_def Let_def)

lemma bricks_save_highscore [simp]: "bricks (save_highscore s) = bricks s"
  by (simp add: save_highscore_def Let_def)

lemma game_state_add_to_leaderboard [simp]: "game_state (add_to_leaderboard sc s) = game_state s"
  by (simp add: add_to_leaderboard_def save_leaderboard_def Let_def)

lemma bricks_add_to_leaderboard [simp]: "bricks (add_to_leaderboard sc s) = bricks s"
  by (simp add: add_to_leaderboard_def save_leaderboard_def Let_def)

lemma bricks_ball_lost [simp]: "bricks (ball_lost s) = bricks s"
  by (simp add: ball_lost_def Let_def)

lemma bricks_remaining_ball_lost [simp]:
  "bricks_remaining (game_state (ball_lost s)) = bricks_remaining (game_state s)"
  by (simp add: ball_lost_def Let_def)

lemma level_cleared_bricks_left:
  "0 < bricks_remaining (game_state s) \<Longrightarrow> level_cleared rnd s = s"
  by (simp add: level_cleared_def)

lemma bricks_update_collectibles [simp]: "bricks (update_collectibles dt s) = bricks s"
  by (simp add: update_collectibles_def split: prod.splits)

lemma game_state_update_collectibles [simp]: "game_state (update_collectibles dt s) = game_state s"
  by (simp add: update_collectibles_def split: prod.splits)

lemma two_alive:
  assumes "i < j" "j < length bs" "is_alive (bs ! i)" "is_alive (bs ! j)"
  shows "2 \<le> count_alive bs"
proof -
  let ?bs' = "bs[i := (bs ! i)\<lparr>is_alive := False\<rparr>]"
  have "Suc (length (filter is_alive ?bs')) = length (filter is_alive bs)"
    using assms by (intro filter_alive_kill) auto
  moreover have "?bs' ! j \<in> set ?bs'" using assms by (intro nth_mem) simp
  then have "?bs' ! j \<in> set (filter is_alive ?bs')" using assms by simp
  then have "0 < length (filter is_alive ?bs')" by (rule length_pos_if_in_set)
  ultimately have "2 \<le> length (filter is_alive bs)" by linarith
  then show ?thesis by (simp add: count_alive_def)
qed

text \<open>
  Claim C1, for \<^verbatim>\<open>update_engine\<close>. The session is in play, the ball is not held, the array
  holds its 84 bricks and \<^verbatim>\<open>bricks_remaining\<close> counts the live ones. If the ball, as it is
  when the scan starts, overlaps two live bricks, then the step kills exactly one brick:
  the live overlapping brick of least index \<open>row * BRICK_COLUMNS + col\<close>. Every other brick
  is as before, and \<^verbatim>\<open>bricks_remaining\<close> goes down by exactly 1.
\<close>

theorem update_engine_destroys_first_brick_only:
  assumes "playing s" and "\<not> is_held (ball s)"
    and "length (bricks s) = BRICK_ROWS * BRICK_COLUMNS"
    and "bricks_remaining (game_state s) = count_alive (bricks s)"
    and "i < j" and "j < BRICK_ROWS * BRICK_COLUMNS"
    and "overlaps_live dt s i" and "overlaps_live dt s j"
  shows "\<exists>k \<le> i. overlaps_live dt s k \<and> (\<forall>m < k. \<not> overlaps_live dt s m) \<and>
       bricks (update_engine rnd dt s)
         = (bricks s)[k := (bricks s ! k)\<lparr>is_alive := False, special := False\<rparr>] \<and>
       (\<forall>m < BRICK_ROWS * BRICK_COLUMNS.
          is_alive (bricks (update_engine rnd dt s) ! m) \<longleftrightarrow> m \<noteq> k \<and> is_alive (bricks s ! m)) \<and>
       bricks_remaining (game_state (update_engine rnd dt s))
         = bricks_remaining (game_state s) - 1"
proof -
  let ?s1 = "s\<lparr>ball := ball_before_bricks dt s\<rparr>"
  have hit: "brick_hit_at ?s1 m \<longleftrightarrow> overlaps_live dt s m" for m
    by (simp add: brick_hit_at_def overlaps_live_def)
  have eab: "engine_after_brick dt s = brick_loop grid_cells ?s1"
    using assms(2) by (simp add: engine_after_brick_def brick_collision_def)
  have iN: "i < BRICK_ROWS * BRICK_COLUMNS" using assms(5,6) by simp
  have "\<not> (\<forall>i < BRICK_ROWS * BRICK_COLUMNS. \<not> brick_hit_at ?s1 i)"
    using assms(7) iN unfolding hit by blast
  with brick_loop_grid[of ?s1] obtain r c where
    rc0: "brick_hit_at ?s1 (brick_index r c)" "brick_index r c < BRICK_ROWS * BRICK_COLUMNS"
        "\<forall>m < brick_index r c. \<not> brick_hit_at ?s1 m"
        "brick_loop grid_cells ?s1 = hit_brick r c ?s1"
    by blast
  have rc: "overlaps_live dt s (brick_index r c)" "brick_index r c < BRICK_ROWS * BRICK_COLUMNS"
        "\<forall>m < brick_index r c. \<not> overlaps_live dt s m"
        "brick_loop grid_cells ?s1 = hit_brick r c ?s1"
    using rc0 unfolding hit by blast+
  let ?k = "brick_index r c"
  let ?s2 = "hit_brick r c ?s1"
  have ki: "?k \<le> i" using rc(3) assms(7) by (meson not_le_imp_less)
  have two: "2 \<le> count_alive (bricks s)"
    using two_alive[of i j "bricks s"] assms by (simp add: overlaps_live_def)
  have br: "bricks ?s2 = (bricks s)[?k := (bricks s ! ?k)\<lparr>is_alive := False, special := False\<rparr>]"
    by (simp add: bricks_hit_brick)
  have rem: "bricks_remaining (game_state ?s2) = bricks_remaining (game_state s) - 1"
    by (simp add: bricks_remaining_hit_brick)
  then have pos: "0 < bricks_remaining (game_state (ball_lost ?s2))"
    using two assms(4) by simp
  have ue: "update_engine rnd dt s = update_collectibles dt (ball_lost ?s2)"
    using assms(1) eab rc(4) level_cleared_bricks_left[OF pos]
    by (simp add: update_engine_def playing_def)
  have 1: "bricks (update_engine rnd dt s)
         = (bricks s)[?k := (bricks s ! ?k)\<lparr>is_alive := False, special := False\<rparr>]"
    by (simp add: ue br)
  have 2: "bricks_remaining (game_state (update_engine rnd dt s)) = bricks_remaining (game_state s) - 1"
    by (simp add: ue rem)
  have 3: "\<forall>m < BRICK_ROWS * BRICK_COLUMNS.
          is_alive (bricks (update_engine rnd dt s) ! m) \<longleftrightarrow> m \<noteq> ?k \<and> is_alive (bricks s ! m)"
    unfolding 1 using assms(3) rc(2) by (auto simp: nth_list_update)
  from ki rc(1,3) 1 2 3 show ?thesis by blast
qed


lemma grid_cells_length: "length grid_cells = 84"
  using arg_cong[OF brick_index_grid_cells, of length] by simp

lemma full_grid_length: "length full_grid = 84"
  by (simp add: full_grid_def grid_cells_length)

lemma full_grid_alive: "filter is_alive full_grid = full_grid"
  by (simp add: full_grid_def filter_map comp_def case_prod_unfold)

lemma full_grid_0: "full_grid ! 0 = \<lparr>brick_rect = \<lparr>rect_x = 2, rect_y = 80, rect_w = 76, rect_h = 24\<rparr>, is_alive = True, color_index = 1, special = False\<rparr>"
  by (simp add: full_grid_def grid_cells_def upt_rec cell_rect_def c_mod_def c_div_def)

lemma full_grid_1: "full_grid ! Suc 0 = \<lparr>brick_rect = \<lparr>rect_x = 82, rect_y = 80, rect_w = 76, rect_h = 24\<rparr>, is_alive = True, color_index = 2, special = False\<rparr>"
  by (simp add: full_grid_def grid_cells_def upt_rec cell_rect_def c_mod_def c_div_def)

lemma two_brick_ball: "ball_before_bricks 0 two_brick_world = ball two_brick_world"
  by (simp add: ball_before_bricks_def paddle_collision_def paddle_bounce_def wall_collision_def
      move_ball_def two_brick_world_def w0_def Let_def)

theorem update_engine_destroys_first_brick_only_witness:
  "overlaps_live 0 two_brick_world 0 \<and> overlaps_live 0 two_brick_world 1 \<and>
   bricks (update_engine (\<lambda>_. 1) 0 two_brick_world)
     = (bricks two_brick_world)[0 := (bricks two_brick_world ! 0)\<lparr>is_alive := False, special := False\<rparr>] \<and>
   \<not> is_alive (bricks (update_engine (\<lambda>_. 1) 0 two_brick_world) ! 0) \<and>
   is_alive (bricks (update_engine (\<lambda>_. 1) 0 two_brick_world) ! 1) \<and>
   bricks_remaining (game_state (update_engine (\<lambda>_. 1) 0 two_brick_world)) = 83"
proof -
  have p: "playing two_brick_world" by (simp add: playing_def two_brick_world_def)
  have h: "\<not> is_held (ball two_brick_world)" by (simp add: two_brick_world_def)
  have l: "length (bricks two_brick_world) = BRICK_ROWS * BRICK_COLUMNS"
    by (simp add: two_brick_world_def full_grid_length)
  have c: "bricks_remaining (game_state two_brick_world) = count_alive (bricks two_brick_world)"
    by (simp add: two_brick_world_def count_alive_def full_grid_alive full_grid_length)
  have o0: "overlaps_live 0 two_brick_world 0"
    unfolding overlaps_live_def two_brick_ball
    by (simp add: two_brick_world_def full_grid_0 rect_overlap_def)
  have o1: "overlaps_live 0 two_brick_world 1"
    unfolding overlaps_live_def two_brick_ball
    by (simp add: two_brick_world_def full_grid_1 rect_overlap_def)
  have a1: "is_alive (bricks two_brick_world ! 1)" by (simp add: two_brick_world_def full_grid_1)
  have r: "bricks_remaining (game_state two_brick_world) = 84" by (simp add: two_brick_world_def)
  from update_engine_destroys_first_brick_only[OF p h l c _ _ o0 o1, of "\<lambda>_. 1"]
  have "bricks (update_engine (\<lambda>_. 1) 0 two_brick_world)
         = (bricks two_brick_world)[0 := (bricks two_brick_world ! 0)\<lparr>is_alive := False, special := False\<rparr>] \<and>
       (\<forall>m < BRICK_ROWS * BRICK_COLUMNS.
          is_alive (bricks (update_engine (\<lambda>_. 1) 0 two_brick_world) ! m) \<longleftrightarrow> m \<noteq> 0 \<and> is_alive (bricks two_brick_world ! m)) \<and>
       bricks_remaining (game_state (update_engine (\<lambda>_. 1) 0 two_brick_world))
         = bricks_remaining (game_state two_brick_world) - 1"
    by auto
  then show ?thesis using o0 o1 a1 r by auto
qed


lemma grid_cells_win_eval: "grid_cells_win = 
  [(0,0),(0,1),(0,2),(0,3),(0,4),(0,5),(0,6),(0,7),(0,8),(0,9),(0,10),(0,11),(0,12),(0,13),
   (1,0),(1,1),(1,2),(1,3),(1,4),(1,5),(1,6),(1,7),(1,8),(1,9),(1,10),(1,11),(1,12),(1,13),
   (2,0),(2,1),(2,2),(2,3),(2,4),(2,5),(2,6),(2,7),(2,8),(2,9),(2,10),(2,11),(2,12),(2,13),
   (3,0),(3,1),(3,2),(3,3),(3,4),(3,5),(3,6),(3,7),(3,8),(3,9),(3,10),(3,11),(3,12),(3,13)]"
  by (simp add: grid_cells_win_def upt_rec)

text \<open>
  Claim C1, for \<^verbatim>\<open>update_ball\<close> of \<^verbatim>\<open>arkanoid.c\<close>. Its loop over the bricks does not stop at
  the first hit: one call makes two bricks inactive, adds the score of both and flips
  \<open>dy\<close> twice, so the ball keeps its direction.
\<close>

theorem update_ball_hits_two_bricks:
  "(case update_ball (\<lambda>_. 0) (win_ball_between, win_paddle0, init_bricks, win_state0) of
      (b, p, bs, g) \<Rightarrow>
        brk_active (init_bricks ! 3 ! 0) \<and> brk_active (init_bricks ! 3 ! 1) \<and>
        \<not> brk_active (bs ! 3 ! 0) \<and> \<not> brk_active (bs ! 3 ! 1) \<and>
        length (filter brk_active (concat bs)) + 2 = length (filter brk_active (concat init_bricks)) \<and>
        gs_score g = 20 \<and> dy b = - 3)"
  by (simp add: update_ball_def win_ball_between_def win_paddle0_def win_state0_def
      init_bricks_def grid_cells_win_eval upt_rec Let_def c_int32_def)

section \<open>The paddle bounce: theorems\<close>

lemma paddle_bounce_hit:
  assumes "\<not> is_held b" "0 < vy b" "rect_overlap (ball_rect b) (paddle_rect p)"
  shows "paddle_bounce g p b =
     (set_ball_y (paddle_y p - ball_h b - 1) b)
       \<lparr>vx := sin (impact_offset p b * (75 * (pi / 180))),
        vy := - cos (impact_offset p b * (75 * (pi / 180))),
        speed := speed b * g\<rparr>"
proof -
  define i where "i = ((ball_x b + ball_w b / 2) - (paddle_x p + paddle_w p / 2)) / (paddle_w p / 2)"
  have "(if (if i < - 1 then - 1 else i) > 1 then 1 else (if i < - 1 then - 1 else i)) = max (- 1) (min 1 i)"
    by (auto simp: max_def min_def)
  then show ?thesis
    using assms unfolding paddle_bounce_def impact_offset_def Let_def i_def[symmetric] by simp
qed

lemma impact_offset_range: "- 1 \<le> impact_offset p b \<and> impact_offset p b \<le> 1"
  by (simp add: impact_offset_def)

lemma cos_bounce_angle_pos:
  assumes "- 1 \<le> u" "u \<le> 1"
  shows "0 < cos (u * (75 * (pi / 180)))"
proof (rule cos_gt_zero_pi)
  have "\<bar>u * (75 * (pi / 180))\<bar> \<le> 75 * (pi / 180)"
    using assms by (simp add: abs_mult abs_le_iff mult_left_le_one_le mult.commute)
  moreover have "75 * (pi / 180) < pi / 2" using pi_gt_zero by simp
  ultimately show "- (pi / 2) < u * (75 * (pi / 180))" "u * (75 * (pi / 180)) < pi / 2"
    by linarith+
qed

lemma no_second_bounce:
  assumes "\<not> is_held b" "vy b < 0" "0 \<le> speed b" "0 \<le> dt"
    and "ball_h b \<le> paddle_y p"
  shows "paddle_bounce g p (wall_collision (move_ball dt p' b)) = wall_collision (move_ball dt p' b)"
proof -
  let ?m = "move_ball dt p' b"
  let ?w = "wall_collision ?m"
  have m: "vy ?m = vy b" "ball_h ?m = ball_h b" "ball_y ?m = ball_y b + vy b * speed b * dt"
    using assms(1) by (simp_all add: move_ball_def)
  have "vy b * speed b * dt \<le> 0"
    using assms(2,3,4) by (simp add: mult_nonpos_nonneg)
  then have my: "ball_y ?m \<le> ball_y b" using m(3) by simp
  show ?thesis
  proof (cases "ball_y ?m \<le> 0")
    case True
    then have "ball_y ?w = 0" "ball_h ?w = ball_h b"
      using assms(1) m by (simp_all add: wall_collision_def Let_def)
    then have "\<not> rect_overlap (ball_rect ?w) (paddle_rect p)"
      using assms(5) by (simp add: rect_overlap_def)
    then show ?thesis by (simp add: paddle_bounce_def)
  next
    case False
    then have "vy ?w = vy b" using assms(1) m by (simp add: wall_collision_def Let_def)
    then show ?thesis using assms(2) by (simp add: paddle_bounce_def)
  qed
qed

lemma ball_update_collectibles [simp]: "ball (update_collectibles dt s) = ball s"
  by (simp add: update_collectibles_def split: prod.splits)

lemma engine_step_keeps_bounced_ball:
  assumes "playing s"
    and "\<forall>i < BRICK_ROWS * BRICK_COLUMNS. \<not> overlaps_live dt s i"
    and "0 < bricks_remaining (game_state s)"
    and "ball_y (ball_before_bricks dt s) \<le> WINDOW_HEIGHT"
  shows "ball (update_engine rnd dt s) = ball_before_bricks dt s"
proof -
  let ?s1 = "s\<lparr>ball := ball_before_bricks dt s\<rparr>"
  have hit: "brick_hit_at ?s1 m \<longleftrightarrow> overlaps_live dt s m" for m
    by (simp add: brick_hit_at_def overlaps_live_def)
  from brick_loop_grid[of ?s1] assms(2) have "brick_loop grid_cells ?s1 = ?s1"
    unfolding hit by blast
  then have eab: "engine_after_brick dt s = ?s1"
    by (simp add: engine_after_brick_def brick_collision_def)
  have bl: "ball_lost ?s1 = ?s1" using assms(4) by (simp add: ball_lost_def)
  have lc: "level_cleared rnd ?s1 = ?s1" using assms(3) by (simp add: level_cleared_def)
  show ?thesis using assms(1) by (simp add: update_engine_def playing_def eab bl lc)
qed

text \<open>
  Claim C3. When the ball is not held, moves down and overlaps the paddle, the bounce sets
  its direction to \<open>(sin (u * 75 deg), - cos (u * 75 deg))\<close> for the clamped offset \<open>u\<close>; the
  vertical component is negative; the speed is multiplied by the growth macro (\<open>g\<close> is
  \<^verbatim>\<open>BALL_SPEED_GROWTH\<close> in \<^verbatim>\<open>update_engine\<close> and \<^verbatim>\<open>BALL_SPEED_INC\<close> in \<^verbatim>\<open>updateEngine\<close>); and the
  ball is put one unit above the paddle, where it does not overlap it. On the next step,
  for any time step that is not negative, any paddle at the same height (the ball being
  no taller than the paddle's \<open>y\<close>) and a speed that is not negative, the ball's move and
  the walls leave it where the bounce does not fire again. The second part ties this to
  the whole step of \<^verbatim>\<open>update_engine\<close>: when no live brick overlaps the bounced ball, bricks
  remain and the paddle is not below the field, the ball of the new state is the
  bounced ball.
\<close>

theorem paddle_bounce_angle:
  "(\<not> is_held b \<and> 0 < vy b \<and> rect_overlap (ball_rect b) (paddle_rect p) \<longrightarrow>
      - 1 \<le> impact_offset p b \<and> impact_offset p b \<le> 1 \<and>
      vx (paddle_bounce g p b) = sin (impact_offset p b * (75 * (pi / 180))) \<and>
      vy (paddle_bounce g p b) = - cos (impact_offset p b * (75 * (pi / 180))) \<and>
      vy (paddle_bounce g p b) < 0 \<and>
      speed (paddle_bounce g p b) = speed b * g \<and>
      ball_x (paddle_bounce g p b) = ball_x b \<and>
      ball_y (paddle_bounce g p b) = paddle_y p - ball_h b - 1 \<and>
      \<not> rect_overlap (ball_rect (paddle_bounce g p b)) (paddle_rect p) \<and>
      (\<forall>(dt'::real) p' g'. 0 \<le> dt' \<and> 0 \<le> speed b * g \<and> ball_h b \<le> paddle_y p \<and> paddle_y p' = paddle_y p \<longrightarrow>
         paddle_bounce g' p' (wall_collision (move_ball dt' p' (paddle_bounce g p b)))
           = wall_collision (move_ball dt' p' (paddle_bounce g p b)))) \<and>
   (playing s \<and> \<not> is_held (ball s) \<and>
    0 < vy (wall_collision (move_ball dt (paddle s) (ball s))) \<and>
    rect_overlap (ball_rect (wall_collision (move_ball dt (paddle s) (ball s)))) (paddle_rect (paddle s)) \<and>
    (\<forall>i < BRICK_ROWS * BRICK_COLUMNS. \<not> overlaps_live dt s i) \<and>
    0 < bricks_remaining (game_state s) \<and>
    paddle_y (paddle s) - ball_h (ball s) - 1 \<le> WINDOW_HEIGHT \<longrightarrow>
      ball (update_engine rnd dt s)
        = paddle_bounce BALL_SPEED_GROWTH (paddle s) (wall_collision (move_ball dt (paddle s) (ball s))))"
proof (intro conjI impI)
  assume a: "\<not> is_held b \<and> 0 < vy b \<and> rect_overlap (ball_rect b) (paddle_rect p)"
  note hit = paddle_bounce_hit[of b p g] a
  note r = impact_offset_range[of p b]
  show "- 1 \<le> impact_offset p b" "impact_offset p b \<le> 1" using r by simp_all
  show "vx (paddle_bounce g p b) = sin (impact_offset p b * (75 * (pi / 180)))" using hit by simp
  show "vy (paddle_bounce g p b) = - cos (impact_offset p b * (75 * (pi / 180)))" using hit by simp
  show neg: "vy (paddle_bounce g p b) < 0" using hit cos_bounce_angle_pos[of "impact_offset p b"] r by simp
  show "speed (paddle_bounce g p b) = speed b * g" using hit by simp
  show "ball_x (paddle_bounce g p b) = ball_x b" using hit by simp
  show "ball_y (paddle_bounce g p b) = paddle_y p - ball_h b - 1" using hit by simp
  show "\<not> rect_overlap (ball_rect (paddle_bounce g p b)) (paddle_rect p)"
    using hit by (simp add: rect_overlap_def)
  show "\<forall>(dt'::real) p' g'. 0 \<le> dt' \<and> 0 \<le> speed b * g \<and> ball_h b \<le> paddle_y p \<and> paddle_y p' = paddle_y p \<longrightarrow>
         paddle_bounce g' p' (wall_collision (move_ball dt' p' (paddle_bounce g p b)))
           = wall_collision (move_ball dt' p' (paddle_bounce g p b))"
  proof (intro allI impI)
    fix dt' :: real and p' :: Paddle and g' :: real
    assume h: "0 \<le> dt' \<and> 0 \<le> speed b * g \<and> ball_h b \<le> paddle_y p \<and> paddle_y p' = paddle_y p"
    have "\<not> is_held (paddle_bounce g p b)" using a by simp
    moreover have "0 \<le> speed (paddle_bounce g p b)" using hit h by simp
    moreover have "ball_h (paddle_bounce g p b) \<le> paddle_y p'" using hit h by simp
    ultimately show "paddle_bounce g' p' (wall_collision (move_ball dt' p' (paddle_bounce g p b)))
           = wall_collision (move_ball dt' p' (paddle_bounce g p b))"
      using neg h by (intro no_second_bounce) simp_all
  qed
next
  assume b: "playing s \<and> \<not> is_held (ball s) \<and>
    0 < vy (wall_collision (move_ball dt (paddle s) (ball s))) \<and>
    rect_overlap (ball_rect (wall_collision (move_ball dt (paddle s) (ball s)))) (paddle_rect (paddle s)) \<and>
    (\<forall>i < BRICK_ROWS * BRICK_COLUMNS. \<not> overlaps_live dt s i) \<and>
    0 < bricks_remaining (game_state s) \<and>
    paddle_y (paddle s) - ball_h (ball s) - 1 \<le> WINDOW_HEIGHT"
  let ?b = "wall_collision (move_ball dt (paddle s) (ball s))"
  have nh: "\<not> is_held ?b" using b by simp
  have bh: "ball_h ?b = ball_h (ball s)" by (simp add: wall_collision_def move_ball_def Let_def)
  have "ball_y (ball_before_bricks dt s) = paddle_y (paddle s) - ball_h (ball s) - 1"
    unfolding ball_before_bricks_def paddle_collision_def
    using paddle_bounce_hit[OF nh, of "paddle s" BALL_SPEED_GROWTH] b bh by simp
  then have "ball_y (ball_before_bricks dt s) \<le> WINDOW_HEIGHT" using b by simp
  from engine_step_keeps_bounced_ball[OF _ _ _ this, of rnd] b
  show "ball (update_engine rnd dt s)
        = paddle_bounce BALL_SPEED_GROWTH (paddle s) (wall_collision (move_ball dt (paddle s) (ball s)))"
    by (simp add: ball_before_bricks_def paddle_collision_def)
qed


lemma full_grid_above:
  "b \<in> set full_grid \<Longrightarrow> rect_y (brick_rect b) + rect_h (brick_rect b) \<le> 296"
  by (auto simp: full_grid_def grid_cells_def cell_rect_def)

lemma bounce_world_wall:
  "wall_collision (move_ball 0 (paddle bounce_world) (ball bounce_world)) = ball bounce_world"
  by (simp add: wall_collision_def move_ball_def bounce_world_def two_brick_world_def w0_def Let_def)

lemma bounce_world_no_brick: "\<forall>i < BRICK_ROWS * BRICK_COLUMNS. \<not> overlaps_live 0 bounce_world i"
proof (intro allI impI)
  fix i :: nat assume "i < BRICK_ROWS * BRICK_COLUMNS"
  then have "full_grid ! i \<in> set full_grid" by (simp add: full_grid_length)
  from full_grid_above[OF this]
  have a: "rect_y (brick_rect (full_grid ! i)) + rect_h (brick_rect (full_grid ! i)) \<le> 296" .
  have "ball_y (ball_before_bricks 0 bounce_world) = 561"
    unfolding ball_before_bricks_def bounce_world_wall
    by (simp add: paddle_collision_def paddle_bounce_def rect_overlap_def bounce_world_def
        two_brick_world_def w0_def Let_def)
  with a show "\<not> overlaps_live 0 bounce_world i"
    by (simp add: overlaps_live_def rect_overlap_def bounce_world_def two_brick_world_def)
qed

theorem paddle_bounce_angle_witness:
  "\<not> is_held (ball bounce_world) \<and> 0 < vy (ball bounce_world) \<and>
   rect_overlap (ball_rect (ball bounce_world)) (paddle_rect (paddle bounce_world)) \<and>
   impact_offset (paddle bounce_world) (ball bounce_world) = 0 \<and>
   vx (paddle_bounce 1 (paddle bounce_world) (ball bounce_world)) = 0 \<and>
   vy (paddle_bounce 1 (paddle bounce_world) (ball bounce_world)) = - 1 \<and>
   speed (paddle_bounce 1 (paddle bounce_world) (ball bounce_world)) = 420 \<and>
   ball_y (paddle_bounce 1 (paddle bounce_world) (ball bounce_world)) = 561 \<and>
   paddle_bounce 1 (paddle bounce_world)
     (wall_collision (move_ball (1 / 20) (paddle bounce_world)
        (paddle_bounce 1 (paddle bounce_world) (ball bounce_world))))
     = wall_collision (move_ball (1 / 20) (paddle bounce_world)
        (paddle_bounce 1 (paddle bounce_world) (ball bounce_world))) \<and>
   playing bounce_world \<and>
   ball (update_engine (\<lambda>_. 1) 0 bounce_world)
     = paddle_bounce 1 (paddle bounce_world) (ball bounce_world)"
proof -
  have h: "\<not> is_held (ball bounce_world)" "0 < vy (ball bounce_world)"
      "rect_overlap (ball_rect (ball bounce_world)) (paddle_rect (paddle bounce_world))"
    by (simp_all add: bounce_world_def two_brick_world_def w0_def rect_overlap_def)
  have io: "impact_offset (paddle bounce_world) (ball bounce_world) = 0"
    by (simp add: impact_offset_def bounce_world_def two_brick_world_def w0_def)
  have v: "speed (ball bounce_world) = 420" "ball_h (ball bounce_world) = 14"
      "paddle_y (paddle bounce_world) = 576"
    by (simp_all add: bounce_world_def two_brick_world_def w0_def)
  have pl: "playing bounce_world" "0 < bricks_remaining (game_state bounce_world)"
    by (simp_all add: playing_def bounce_world_def two_brick_world_def)
  from paddle_bounce_angle[of "ball bounce_world" "paddle bounce_world" 1 bounce_world 0 "\<lambda>_. 1"]
    h io v pl bounce_world_no_brick bounce_world_wall
  have "vx (paddle_bounce 1 (paddle bounce_world) (ball bounce_world)) = 0 \<and>
   vy (paddle_bounce 1 (paddle bounce_world) (ball bounce_world)) = - 1 \<and>
   speed (paddle_bounce 1 (paddle bounce_world) (ball bounce_world)) = 420 \<and>
   ball_y (paddle_bounce 1 (paddle bounce_world) (ball bounce_world)) = 561 \<and>
   (\<forall>(dt'::real) p' g'. 0 \<le> dt' \<and> paddle_y p' = 576 \<longrightarrow>
         paddle_bounce g' p' (wall_collision (move_ball dt' p' (paddle_bounce 1 (paddle bounce_world) (ball bounce_world))))
           = wall_collision (move_ball dt' p' (paddle_bounce 1 (paddle bounce_world) (ball bounce_world)))) \<and>
   ball (update_engine (\<lambda>_. 1) 0 bounce_world)
     = paddle_bounce 1 (paddle bounce_world) (ball bounce_world)"
    by simp
  then show ?thesis using h io v pl by simp
qed

section \<open>The end of a session: theorems\<close>

lemma persist_log_hit_brick [simp]: "persist_log (hit_brick r c s) = persist_log s"
  by (simp add: hit_brick_def Let_def)

lemma persist_log_brick_loop [simp]: "persist_log (brick_loop cells s) = persist_log s"
  by (induction cells s rule: brick_loop.induct) (simp_all add: Let_def)

lemma persist_log_engine_after_brick [simp]: "persist_log (engine_after_brick dt s) = persist_log s"
  by (simp add: engine_after_brick_def brick_collision_def)

lemma persist_log_update_collectibles [simp]: "persist_log (update_collectibles dt s) = persist_log s"
  by (simp add: update_collectibles_def split: prod.splits)

lemma lives_hit_brick [simp]: "lives (game_state (hit_brick r c s)) = lives (game_state s)"
  by (simp add: hit_brick_def Let_def add_score_for_brick_def)

lemma lives_brick_loop [simp]: "lives (game_state (brick_loop cells s)) = lives (game_state s)"
  by (induction cells s rule: brick_loop.induct) (simp_all add: Let_def)

lemma lives_engine_after_brick [simp]: "lives (game_state (engine_after_brick dt s)) = lives (game_state s)"
  by (simp add: engine_after_brick_def brick_collision_def)

lemma save_highscore_log:
  "persist_log (save_highscore s) = persist_log s @ [Save_Highscore (high_score s)]"
  by (simp add: save_highscore_def Let_def)

lemma add_to_leaderboard_log:
  "\<exists>l. persist_log (add_to_leaderboard sc s) = persist_log s @ Add_To_Leaderboard sc # l \<and>
       \<not> list_ex is_add_to_leaderboard l"
  by (simp add: add_to_leaderboard_def save_leaderboard_def Let_def)

lemma ball_lost_last_life:
  assumes "\<not> is_held (ball s)" "ball_y (ball s) > WINDOW_HEIGHT" "lives (game_state s) = 1"
  shows "game_state (ball_lost s)
           = (game_state s)\<lparr>lives := 0, show_menu := True, is_running := False\<rparr> \<and>
         filter is_add_to_leaderboard (new_calls s (ball_lost s))
           = [Add_To_Leaderboard (score (game_state s))]"
proof -
  let ?s1 = "s\<lparr>game_state := (game_state s)\<lparr>lives := lives (game_state s) - 1\<rparr>\<rparr>"
  let ?s2 = "if score (game_state ?s1) > high_score ?s1
             then save_highscore (?s1\<lparr>high_score := score (game_state ?s1)\<rparr>) else ?s1"
  let ?s3 = "add_to_leaderboard (score (game_state ?s2)) ?s2"
  have bl: "ball_lost s = ?s3\<lparr>game_state := (game_state ?s3)\<lparr>show_menu := True, is_running := False\<rparr>\<rparr>"
    using assms by (simp add: ball_lost_def Let_def)
  have g2: "game_state ?s2 = (game_state s)\<lparr>lives := 0\<rparr>" using assms(3) by simp
  obtain pre where pre: "persist_log ?s2 = persist_log s @ pre" "\<not> list_ex is_add_to_leaderboard pre"
    by (cases "score (game_state ?s1) > high_score ?s1") (auto simp: save_highscore_log)
  from add_to_leaderboard_log[of "score (game_state ?s2)" ?s2] obtain l where
    l: "persist_log ?s3 = persist_log ?s2 @ Add_To_Leaderboard (score (game_state ?s2)) # l"
       "\<not> list_ex is_add_to_leaderboard l" by blast
  have "new_calls s (ball_lost s) = pre @ Add_To_Leaderboard (score (game_state s)) # l"
    unfolding new_calls_def bl using l(1) pre(1) g2 by simp
  then have "filter is_add_to_leaderboard (new_calls s (ball_lost s))
           = [Add_To_Leaderboard (score (game_state s))]"
    using pre(2) l(2) by (simp add: list_ex_iff filter_empty_conv)
  moreover have "game_state (ball_lost s)
           = (game_state s)\<lparr>lives := 0, show_menu := True, is_running := False\<rparr>"
    unfolding bl using g2 by simp
  ultimately show ?thesis by simp
qed

text \<open>
  In \<^verbatim>\<open>arkanoid.c\<close> the call of \<^verbatim>\<open>save_score\<close> sits in the drawing code of the loop of
  \<^verbatim>\<open>WinMain\<close>, under the test of \<^verbatim>\<open>game_over\<close>. The pass in which the last life is lost sets
  \<^verbatim>\<open>game_over\<close>, leaves \<^verbatim>\<open>running\<close> set and appends the score to the file; every later pass
  finds \<^verbatim>\<open>game_over\<close> set and appends the score again, so the file holds it once after one
  pass, twice after two and three times after three.
\<close>

theorem frame_win_saves_score_every_frame:
  "gs_lives (w_state win_lost_world) = 1 \<and>
   game_over (w_state (frame_win (\<lambda>_. 0) win_lost_world)) \<and>
   w_running (frame_win (\<lambda>_. 0) win_lost_world) \<and>
   highscore_txt (frame_win (\<lambda>_. 0) win_lost_world) = [30] \<and>
   highscore_txt (frame_win (\<lambda>_. 0) (frame_win (\<lambda>_. 0) win_lost_world)) = [30, 30] \<and>
   highscore_txt (frame_win (\<lambda>_. 0) (frame_win (\<lambda>_. 0) (frame_win (\<lambda>_. 0) win_lost_world)))
     = [30, 30, 30]"
  by (simp add: frame_win_def update_ball_def handle_paddle_input_def save_score_def
      win_lost_world_def win_paddle0_def Let_def)

section \<open>The score: theorems\<close>

lemma c_int32_id: "INT_MIN \<le> x \<Longrightarrow> x \<le> INT_MAX \<Longrightarrow> c_int32 x = x"
  by (simp add: c_int32_def)

lemma c_int32_range: "INT_MIN \<le> c_int32 x \<and> c_int32 x \<le> INT_MAX"
proof -
  have "0 \<le> (x + 2147483648) mod 4294967296" "(x + 2147483648) mod 4294967296 < 4294967296"
    by simp_all
  then show ?thesis unfolding c_int32_def by linarith
qed

text \<open>A sum that stays at or below \<^verbatim>\<open>INT_MAX\<close> is stored as it is or, below \<^verbatim>\<open>INT_MIN\<close>, raised.\<close>

lemma c_int32_add_ge: "0 \<le> v \<Longrightarrow> x + v \<le> INT_MAX \<Longrightarrow> x \<le> c_int32 (x + v)"
proof (cases "INT_MIN \<le> x + v")
  case True
  assume "0 \<le> v" "x + v \<le> INT_MAX"
  with True show ?thesis by (simp add: c_int32_id)
next
  case False
  assume "0 \<le> v"
  with False c_int32_range[of "x + v"] show ?thesis by linarith
qed

lemma c_int32_add_le: "0 \<le> v \<Longrightarrow> INT_MIN \<le> x \<Longrightarrow> c_int32 (x + v) \<le> x + v"
proof (cases "x + v \<le> INT_MAX")
  case True
  assume "0 \<le> v" "INT_MIN \<le> x"
  with True show ?thesis by (simp add: c_int32_id)
next
  case False
  with c_int32_range[of "x + v"] show ?thesis by linarith
qed

lemma score_hit_brick: "score (game_state (hit_brick r c s)) = c_int32 (score (game_state s) + 10)"
  by (simp add: hit_brick_def Let_def add_score_for_brick_def)

lemma score_brick_loop:
  "score (game_state (brick_loop cells s)) = score (game_state s) \<or>
   score (game_state (brick_loop cells s)) = c_int32 (score (game_state s) + 10)"
  by (induction cells s rule: brick_loop.induct) (simp_all add: Let_def score_hit_brick)

lemma score_ball_lost [simp]: "score (game_state (ball_lost s)) = score (game_state s)"
  by (simp add: ball_lost_def Let_def)

lemma score_load_level: "load_level_from_file lv s = Some s' \<Longrightarrow> score (game_state s') = score (game_state s)"
  by (auto simp: load_level_from_file_def Let_def split: option.splits)

lemma score_reset_level [simp]: "score (game_state (reset_level rnd lv s)) = score (game_state s)"
  by (auto simp: reset_level_def Let_def score_load_level split: option.splits prod.splits)

lemma score_level_cleared [simp]: "score (game_state (level_cleared rnd s)) = score (game_state s)"
  by (simp add: level_cleared_def Let_def)

text \<open>A step of \<^verbatim>\<open>update_engine\<close> leaves the score alone or stores the score plus 10.\<close>

lemma score_update_engine_cases:
  "score (game_state (update_engine rnd dt s)) = score (game_state s) \<or>
   score (game_state (update_engine rnd dt s)) = c_int32 (score (game_state s) + 10)"
  using score_brick_loop[of grid_cells "s\<lparr>ball := ball_before_bricks dt s\<rparr>"]
  by (auto simp: update_engine_def engine_after_brick_def brick_collision_def)

lemma score_update_engine:
  assumes "score (game_state s) + 10 \<le> INT_MAX"
  shows "score (game_state s) \<le> score (game_state (update_engine rnd dt s))"
  using score_update_engine_cases[of rnd dt s] c_int32_add_ge[of 10 "score (game_state s)"] assms
  by auto

lemma score_update_engine_upper:
  assumes "INT_MIN \<le> score (game_state s)"
  shows "score (game_state (update_engine rnd dt s)) \<le> score (game_state s) + 10"
  using score_update_engine_cases[of rnd dt s] c_int32_add_le[of 10 "score (game_state s)"] assms
  by auto

lemma score_update_engine_steps:
  "INT_MIN \<le> score (game_state s) \<Longrightarrow>
   score (game_state s) + 10 * int (length steps) \<le> INT_MAX \<Longrightarrow>
   score (game_state s) \<le> score (game_state (fold (\<lambda>(rnd, dt). update_engine rnd dt) steps s))"
proof (induction steps arbitrary: s)
  case Nil
  then show ?case by simp
next
  case (Cons a steps)
  obtain rnd dt where a: "a = (rnd, dt)" by (cases a)
  let ?s = "update_engine rnd dt s"
  from Cons.prems have b: "score (game_state s) + 10 \<le> INT_MAX" by simp
  have 1: "score (game_state s) \<le> score (game_state ?s)" by (rule score_update_engine[OF b])
  have 2: "score (game_state ?s) \<le> score (game_state s) + 10"
    by (rule score_update_engine_upper[OF Cons.prems(1)])
  have "score (game_state ?s) \<le> score (game_state (fold (\<lambda>(rnd, dt). update_engine rnd dt) steps ?s))"
    using 1 2 Cons.prems by (intro Cons.IH) simp_all
  with 1 show ?case by (simp add: a)
qed

text \<open>
  The same for \<^verbatim>\<open>part_000\<close>, where a brick is worth \<open>10 + (level - 1) * 5\<close>. In the states
  its main loop reaches the level is at least 1, and at most \<open>MAX_LEVELS0\<close> while the game
  runs, so a brick is worth between 10 and 30.
\<close>

lemma level_resetLevel [simp]: "level (state (resetLevel lv s)) = level (state s)"
  by (simp add: resetLevel_def Let_def)

lemma score_resetLevel [simp]: "score (state (resetLevel lv s)) = score (state s)"
  by (simp add: resetLevel_def Let_def)

lemma level_hitBrick [simp]: "level (state (hitBrick r c s)) = level (state s)"
  by (simp add: hitBrick_def Let_def)

lemma score_hitBrick:
  "score (state (hitBrick r c s)) = c_int32 (score (state s) + (10 + (level (state s) - 1) * 5))"
  by (simp add: hitBrick_def Let_def)

lemma level_brickLoop [simp]: "level (state (brickLoop cells s)) = level (state s)"
  by (induction cells s rule: brickLoop.induct) (simp_all add: Let_def)

lemma score_brickLoop:
  "score (state (brickLoop cells s)) = score (state s) \<or>
   score (state (brickLoop cells s)) = c_int32 (score (state s) + (10 + (level (state s) - 1) * 5))"
  by (induction cells s rule: brickLoop.induct) (simp_all add: Let_def score_hitBrick)

lemma level_ballFell [simp]: "level (state (ballFell s)) = level (state s)"
  by (simp add: ballFell_def Let_def)

lemma score_ballFell [simp]: "score (state (ballFell s)) = score (state s)"
  by (simp add: ballFell_def Let_def)

lemma score_levelCleared [simp]: "score (state (levelCleared s)) = score (state s)"
  by (simp add: levelCleared_def Let_def)

lemma is_running_resetLevel [simp]: "is_running (state (resetLevel lv s)) = is_running (state s)"
  by (simp add: resetLevel_def Let_def)

lemma level_levelCleared:
  "level_ok (state s) \<Longrightarrow> level_ok (state (levelCleared s))"
  by (auto simp: levelCleared_def level_ok_def Let_def)

lemma level_ok_ballFell: "level_ok (state s) \<Longrightarrow> level_ok (state (ballFell s))"
  by (auto simp: ballFell_def level_ok_def Let_def)

lemma is_running_hitBrick [simp]: "is_running (state (hitBrick r c s)) = is_running (state s)"
  by (simp add: hitBrick_def Let_def)

lemma is_running_brickLoop [simp]: "is_running (state (brickLoop cells s)) = is_running (state s)"
  by (induction cells s rule: brickLoop.induct) (simp_all add: Let_def)

lemma score_updateEngine_cases:
  "score (state (updateEngine dt s)) = score (state s) \<or>
   is_running (state s) \<and>
   score (state (updateEngine dt s)) = c_int32 (score (state s) + (10 + (level (state s) - 1) * 5))"
proof (cases "\<not> is_running (state s) \<or> is_paused (state s) \<or> show_menu (state s)")
  case True
  then show ?thesis by (simp add: updateEngine_def)
next
  case False
  let ?s1 = "s\<lparr>gBall := paddle_bounce BALL_SPEED_INC (gPaddle s)
                              (wall_collision (move_ball dt (gPaddle s) (gBall s)))\<rparr>"
  let ?s2 = "if \<not> is_held (gBall ?s1) then brickLoop grid_cells ?s1 else ?s1"
  have ue: "updateEngine dt s = levelCleared (ballFell ?s2)"
    using False by (simp add: updateEngine_def Let_def)
  from score_brickLoop[of grid_cells ?s1] False show ?thesis unfolding ue by auto
qed

lemma level_ok_updateEngine: "level_ok (state s) \<Longrightarrow> level_ok (state (updateEngine dt s))"
proof (cases "\<not> is_running (state s) \<or> is_paused (state s) \<or> show_menu (state s)")
  case True
  assume "level_ok (state s)"
  with True show ?thesis by (simp add: updateEngine_def)
next
  case False
  assume ok: "level_ok (state s)"
  let ?s1 = "s\<lparr>gBall := paddle_bounce BALL_SPEED_INC (gPaddle s)
                              (wall_collision (move_ball dt (gPaddle s) (gBall s)))\<rparr>"
  let ?s2 = "if \<not> is_held (gBall ?s1) then brickLoop grid_cells ?s1 else ?s1"
  have ue: "updateEngine dt s = levelCleared (ballFell ?s2)"
    using False by (simp add: updateEngine_def Let_def)
  have "level_ok (state ?s2)" using ok by (simp add: level_ok_def)
  then show ?thesis unfolding ue by (intro level_levelCleared level_ok_ballFell)
qed

lemma score_updateEngine:
  assumes "level_ok (state s)" "score (state s) + (10 + (level (state s) - 1) * 5) \<le> INT_MAX"
  shows "score (state s) \<le> score (state (updateEngine dt s))"
proof -
  from score_updateEngine_cases[of dt s]
  consider "score (state (updateEngine dt s)) = score (state s)"
    | "is_running (state s)"
      "score (state (updateEngine dt s)) = c_int32 (score (state s) + (10 + (level (state s) - 1) * 5))"
    by blast
  then show ?thesis
  proof cases
    case 1
    then show ?thesis by simp
  next
    case 2
    from assms(1) have "0 \<le> 10 + (level (state s) - 1) * 5" by (simp add: level_ok_def)
    from c_int32_add_ge[OF this assms(2)] 2(2) show ?thesis by simp
  qed
qed

lemma score_updateEngine_upper:
  assumes "level_ok (state s)" "INT_MIN \<le> score (state s)"
  shows "score (state (updateEngine dt s)) \<le> score (state s) + 30"
proof -
  from score_updateEngine_cases[of dt s]
  consider "score (state (updateEngine dt s)) = score (state s)"
    | "is_running (state s)"
      "score (state (updateEngine dt s)) = c_int32 (score (state s) + (10 + (level (state s) - 1) * 5))"
    by blast
  then show ?thesis
  proof cases
    case 1
    then show ?thesis by simp
  next
    case 2
    from assms(1) 2(1) have v: "0 \<le> 10 + (level (state s) - 1) * 5" "10 + (level (state s) - 1) * 5 \<le> 30"
      by (simp_all add: level_ok_def)
    from c_int32_add_le[OF v(1) assms(2)] 2(2) v(2) show ?thesis by simp
  qed
qed

lemma updateEngine_steps:
  "level_ok (state s) \<Longrightarrow> INT_MIN \<le> score (state s) \<Longrightarrow>
   score (state s) + 30 * int (length dts) \<le> INT_MAX \<Longrightarrow>
   score (state s) \<le> score (state (fold updateEngine dts s))"
proof (induction dts arbitrary: s)
  case Nil
  then show ?case by simp
next
  case (Cons dt dts)
  let ?s = "updateEngine dt s"
  have ok: "level_ok (state ?s)" by (rule level_ok_updateEngine[OF Cons.prems(1)])
  have up: "score (state ?s) \<le> score (state s) + 30"
    by (rule score_updateEngine_upper[OF Cons.prems(1,2)])
  have v: "10 + (level (state s) - 1) * 5 \<le> 30 \<or> \<not> is_running (state s)"
    using Cons.prems(1) by (auto simp: level_ok_def)
  have lo: "score (state s) \<le> score (state ?s)"
  proof (cases "is_running (state s)")
    case True
    with v Cons.prems(3) have "score (state s) + (10 + (level (state s) - 1) * 5) \<le> INT_MAX" by simp
    from score_updateEngine[OF Cons.prems(1) this] show ?thesis .
  next
    case False
    then show ?thesis by (simp add: updateEngine_def)
  qed
  have "score (state ?s) \<le> score (state (fold updateEngine dts ?s))"
    using ok up lo Cons.prems by (intro Cons.IH) simp_all
  with lo show ?case by simp
qed

lemma level_ok_handleInput:
  "1 \<le> level (state s) \<Longrightarrow> level (state s) \<le> MAX_LEVELS0 \<Longrightarrow>
   1 \<le> level (state (handleInput rnd ev s)) \<and> level (state (handleInput rnd ev s)) \<le> MAX_LEVELS0"
proof (cases ev)
  case (SDL_KEYDOWN k)
  assume "1 \<le> level (state s)" "level (state s) \<le> MAX_LEVELS0"
  then show ?thesis using SDL_KEYDOWN by (cases k) (simp_all add: handleInput_def resetGame_def)
qed (simp_all add: handleInput_def)

lemma level_ok_handleInputs:
  "1 \<le> level (state s) \<Longrightarrow> level (state s) \<le> MAX_LEVELS0 \<Longrightarrow>
   1 \<le> level (state (fold (\<lambda>(r, ev) w. handleInput r ev w) evs s)) \<and>
   level (state (fold (\<lambda>(r, ev) w. handleInput r ev w) evs s)) \<le> MAX_LEVELS0"
proof (induction evs arbitrary: s)
  case Nil
  then show ?case by simp
next
  case (Cons a evs)
  obtain r ev where a: "a = (r, ev)" by (cases a)
  from level_ok_handleInput[OF Cons.prems, of r ev] Cons.IH[of "handleInput r ev s"]
  show ?case by (simp add: a)
qed

lemma level_ok_mainLoopBody:
  assumes "level_ok (state s)" "is_running (state s)"
  shows "level_ok (state (mainLoopBody evs left right delta s))"
proof -
  from assms have "1 \<le> level (state s)" "level (state s) \<le> MAX_LEVELS0" by (simp_all add: level_ok_def)
  from level_ok_handleInputs[OF this, of evs]
  have "level_ok (state (fold (\<lambda>(r, ev) w. handleInput r ev w) evs s))" by (simp add: level_ok_def)
  then show ?thesis unfolding mainLoopBody_def Let_def by (intro level_ok_updateEngine) simp
qed

lemma level_ok_initialWorld: "level_ok (state initialWorld)"
  by (simp add: initialWorld_def resetGame_def level_ok_def)

lemma reachable0_level: "reachable0 s \<Longrightarrow> level_ok (state s)"
  by (induction rule: reachable0.induct) (simp_all add: level_ok_initialWorld level_ok_mainLoopBody)

text \<open>
  Claim C5, with the score as the 32-bit \<^verbatim>\<open>int\<close> it is. A step of \<^verbatim>\<open>update_engine\<close> never
  lowers a score that is at most \<^verbatim>\<open>INT_MAX\<close> - 10, from any state, and a sequence of \<open>n\<close> steps
  never lowers a score that is at least \<^verbatim>\<open>INT_MIN\<close>, as every \<^verbatim>\<open>int\<close> is, and at most
  \<^verbatim>\<open>INT_MAX\<close> - 10 \<open>n\<close>. In \<^verbatim>\<open>part_000\<close> a brick adds
  \<open>10 + (level - 1) * 5\<close>, which is between 10 and 30 in the states its main loop reaches:
  from such a state a step of \<^verbatim>\<open>updateEngine\<close> never lowers a score that leaves room for
  one brick, and \<open>n\<close> steps never lower a score that is at most \<^verbatim>\<open>INT_MAX\<close> - 30 \<open>n\<close>.
  (The key \<^verbatim>\<open>r\<close> restarts the game and sets the score to 0; it is not an engine step.)
\<close>

theorem score_never_decreases:
  "(score (game_state s) + 10 \<le> INT_MAX \<longrightarrow>
      score (game_state s) \<le> score (game_state (update_engine rnd dt s))) \<and>
   (INT_MIN \<le> score (game_state s) \<and> score (game_state s) + 10 * int (length steps) \<le> INT_MAX \<longrightarrow>
      score (game_state s) \<le> score (game_state (fold (\<lambda>(rnd, dt). update_engine rnd dt) steps s))) \<and>
   (reachable0 s0 \<and> score (state s0) + (10 + (level (state s0) - 1) * 5) \<le> INT_MAX \<longrightarrow>
      score (state s0) \<le> score (state (updateEngine dt0 s0))) \<and>
   (reachable0 s0 \<and> INT_MIN \<le> score (state s0) \<and> score (state s0) + 30 * int (length dts) \<le> INT_MAX \<longrightarrow>
      score (state s0) \<le> score (state (fold updateEngine dts s0)))"
  using score_update_engine[of s rnd dt] score_update_engine_steps[of s steps]
    score_updateEngine[OF reachable0_level, of s0 dt0] updateEngine_steps[OF reachable0_level, of s0 dts]
  by blast

section \<open>The procedural layout: theorems\<close>

lemma fallback_cells_alive:
  "map is_alive (fst (fallback_cells rnd lv cells n)) = map (\<lambda>(r, c). fallback_alive lv r c) cells"
  by (induction rnd lv cells n rule: fallback_cells.induct)
     (auto simp: fallback_alive_def split: prod.splits)

lemma fallback_cells_color:
  "map color_index (fst (fallback_cells rnd lv cells n))
     = map (\<lambda>(r, c). c_mod (int r + int c + lv) 10) cells"
  by (induction rnd lv cells n rule: fallback_cells.induct) (auto split: prod.splits)

lemma fallback_cells_rect:
  "map brick_rect (fst (fallback_cells rnd lv cells n)) = map (\<lambda>(r, c). cell_rect r c) cells"
  by (induction rnd lv cells n rule: fallback_cells.induct) (auto split: prod.splits)

lemma fallback_cells_count:
  "snd (fallback_cells rnd lv cells n) = n + length (filter (\<lambda>(r, c). fallback_alive lv r c) cells)"
  by (induction rnd lv cells n rule: fallback_cells.induct)
     (auto simp: fallback_alive_def split: prod.splits)

lemma reset_level_no_file:
  assumes "level_files s lv = None"
  shows "bricks (reset_level rnd lv s) = fst (fallback_cells rnd lv grid_cells 0) \<and>
         bricks_remaining (game_state (reset_level rnd lv s)) = int (snd (fallback_cells rnd lv grid_cells 0))"
  using assms by (simp add: reset_level_def load_level_from_file_def Let_def split: prod.splits)

lemma resetLevel_alive:
  "map alive (gBricks (resetLevel lv s)) = map (\<lambda>(r, c). fallback_alive lv r c) grid_cells"
  by (simp add: resetLevel_def Let_def resetLevel_cell_def fallback_alive_def comp_def case_prod_unfold)

lemma resetLevel_color:
  "map colorIdx (gBricks (resetLevel lv s)) = map (\<lambda>(r, c). c_mod (int r + int c + lv) 8) grid_cells"
  by (simp add: resetLevel_def Let_def resetLevel_cell_def comp_def case_prod_unfold)

lemma resetLevel_rect:
  "map brick0_r (gBricks (resetLevel lv s)) = map (\<lambda>(r, c). cell_rect r c) grid_cells"
  by (simp add: resetLevel_def Let_def resetLevel_cell_def comp_def case_prod_unfold)

lemma resetLevel_count:
  "bricks_remaining (state (resetLevel lv s))
     = int (length (filter (\<lambda>(r, c). fallback_alive lv r c) grid_cells))"
proof -
  have "length (filter alive (gBricks (resetLevel lv s)))
      = length (filter id (map alive (gBricks (resetLevel lv s))))"
    by (simp add: filter_map comp_def)
  also have "\<dots> = length (filter (\<lambda>(r, c). fallback_alive lv r c) grid_cells)"
    unfolding resetLevel_alive by (simp add: filter_map comp_def)
  finally show ?thesis by (simp add: resetLevel_def Let_def)
qed

text \<open>
  Claim C8. When there is no file for the level, two runs of \<^verbatim>\<open>reset_level\<close> with the same
  level, from any two states and with any results of \<^verbatim>\<open>rand()\<close>, give bricks with the same
  alive flags, colour indices and rectangles and the same \<^verbatim>\<open>bricks_remaining\<close>; with the
  same results of \<^verbatim>\<open>rand()\<close> they give the same bricks altogether, special flags
  included. \<^verbatim>\<open>resetLevel\<close> of \<^verbatim>\<open>part_000\<close>, which has no special flag and calls no
  \<^verbatim>\<open>rand()\<close>, gives the same alive flags, colour indices, rectangles and count from any
  two states.
\<close>

theorem fallback_layout_function_of_level:
  "(level_files s1 lv = None \<and> level_files s2 lv = None \<longrightarrow>
      map is_alive (bricks (reset_level rnd1 lv s1)) = map is_alive (bricks (reset_level rnd2 lv s2)) \<and>
      map color_index (bricks (reset_level rnd1 lv s1))
        = map color_index (bricks (reset_level rnd2 lv s2)) \<and>
      map brick_rect (bricks (reset_level rnd1 lv s1)) = map brick_rect (bricks (reset_level rnd2 lv s2)) \<and>
      bricks_remaining (game_state (reset_level rnd1 lv s1))
        = bricks_remaining (game_state (reset_level rnd2 lv s2)) \<and>
      bricks (reset_level rnd1 lv s1) = bricks (reset_level rnd1 lv s2)) \<and>
   map alive (gBricks (resetLevel lv t1)) = map alive (gBricks (resetLevel lv t2)) \<and>
   map colorIdx (gBricks (resetLevel lv t1)) = map colorIdx (gBricks (resetLevel lv t2)) \<and>
   map brick0_r (gBricks (resetLevel lv t1)) = map brick0_r (gBricks (resetLevel lv t2)) \<and>
   bricks_remaining (state (resetLevel lv t1)) = bricks_remaining (state (resetLevel lv t2))"
proof -
  have p0: "map alive (gBricks (resetLevel lv t1)) = map alive (gBricks (resetLevel lv t2)) \<and>
   map colorIdx (gBricks (resetLevel lv t1)) = map colorIdx (gBricks (resetLevel lv t2)) \<and>
   map brick0_r (gBricks (resetLevel lv t1)) = map brick0_r (gBricks (resetLevel lv t2)) \<and>
   bricks_remaining (state (resetLevel lv t1)) = bricks_remaining (state (resetLevel lv t2))"
    by (simp only: resetLevel_alive resetLevel_color resetLevel_rect resetLevel_count)
  have v1: "map is_alive (bricks (reset_level rnd1 lv s1)) = map is_alive (bricks (reset_level rnd2 lv s2)) \<and>
      map color_index (bricks (reset_level rnd1 lv s1))
        = map color_index (bricks (reset_level rnd2 lv s2)) \<and>
      map brick_rect (bricks (reset_level rnd1 lv s1)) = map brick_rect (bricks (reset_level rnd2 lv s2)) \<and>
      bricks_remaining (game_state (reset_level rnd1 lv s1))
        = bricks_remaining (game_state (reset_level rnd2 lv s2)) \<and>
      bricks (reset_level rnd1 lv s1) = bricks (reset_level rnd1 lv s2)"
    if "level_files s1 lv = None" "level_files s2 lv = None"
    using reset_level_no_file[OF that(1)] reset_level_no_file[OF that(2)]
    by (simp add: fallback_cells_alive fallback_cells_color fallback_cells_rect fallback_cells_count)
  from p0 v1 show ?thesis by blast
qed

theorem fallback_layout_function_of_level_witness:
  "level_files w0 3 = None \<and> level_files start_world 3 = None \<and>
   map is_alive (bricks (reset_level (\<lambda>_. 0) 3 w0)) = map is_alive (bricks (reset_level (\<lambda>_. 1) 3 start_world)) \<and>
   map color_index (bricks (reset_level (\<lambda>_. 0) 3 w0))
     = map color_index (bricks (reset_level (\<lambda>_. 1) 3 start_world)) \<and>
   bricks_remaining (game_state (reset_level (\<lambda>_. 0) 3 w0))
     = bricks_remaining (game_state (reset_level (\<lambda>_. 1) 3 start_world)) \<and>
   map alive (gBricks (resetLevel 3 initialWorld)) = map alive (gBricks (resetLevel 3 started0))"
proof -
  have a: "level_files w0 3 = None" by (simp add: w0_def)
  have "level_files (initial_world lf hf lbf wr rnd) = lf" for lf hf lbf wr rnd
    by (simp add: initial_world_def reset_game_def reset_level_def load_level_from_file_def
        load_leaderboard_def load_highscore_def Let_def split: option.splits prod.splits)
  then have b: "level_files start_world 3 = None" by (simp add: start_world_def)
  from fallback_layout_function_of_level[of w0 3 start_world "\<lambda>_. 0" "\<lambda>_. 1" initialWorld started0] a b
  show ?thesis by blast
qed

lemma grid_cells_head: "grid_cells = (0, 0) # tl grid_cells"
  by (simp add: grid_cells_def upt_rec)

text \<open>
  Claim C8, the special flags. In \<^verbatim>\<open>reset_level\<close> a live brick is special when \<^verbatim>\<open>rand() % 18\<close>
  is 0: two runs at level 1 from the same state, without a level file, differ in the
  special flag of the first brick when \<^verbatim>\<open>rand()\<close> returns 0 in one and 1 in the other.
\<close>

theorem fallback_special_flags_follow_rand:
  "level_files w0 1 = None \<and>
   special (bricks (reset_level (\<lambda>_. 0) 1 w0) ! 0) \<and>
   \<not> special (bricks (reset_level (\<lambda>_. 1) 1 w0) ! 0)"
proof -
  have a: "level_files w0 1 = None" by (simp add: w0_def)
  have "special (fst (fallback_cells rnd 1 grid_cells 0) ! 0) \<longleftrightarrow> c_mod (rnd 0) 18 = 0" for rnd
    by (subst grid_cells_head) (simp split: prod.splits)
  then show ?thesis
    using a reset_level_no_file[OF a] by (simp add: c_mod_def c_div_def)
qed

section \<open>The count of the bricks: theorems\<close>

lemma fallback_cells_length: "length (fst (fallback_cells rnd lv cells n)) = length cells"
  by (induction rnd lv cells n rule: fallback_cells.induct) (auto split: prod.splits)

lemma fallback_cells_counts_alive:
  "snd (fallback_cells rnd lv cells n) = n + length (filter is_alive (fst (fallback_cells rnd lv cells n)))"
  by (induction rnd lv cells n rule: fallback_cells.induct) (auto split: prod.splits)

lemma reset_level_counted: "bricks_counted (reset_level rnd lv s)"
proof (cases "level_files s lv")
  case None
  from reset_level_no_file[OF None, of rnd] show ?thesis
    by (simp add: bricks_counted_def fallback_cells_length grid_cells_length count_alive_def
        fallback_cells_counts_alive[of rnd lv grid_cells 0])
next
  case (Some lns)
  then show ?thesis
    by (simp add: bricks_counted_def reset_level_def load_level_from_file_def Let_def grid_cells_length)
qed

lemma hit_brick_counted:
  assumes "bricks_counted s" "brick_hit_at s (brick_index r c)" "brick_index r c < BRICK_ROWS * BRICK_COLUMNS"
  shows "bricks_counted (hit_brick r c s)"
proof -
  have "count_alive (bricks (hit_brick r c s)) = count_alive (bricks s) - 1"
    unfolding bricks_hit_brick using assms
    by (intro count_alive_kill) (simp_all add: bricks_counted_def brick_hit_at_def)
  then show ?thesis
    using assms(1) by (simp add: bricks_counted_def bricks_remaining_hit_brick) (simp add: bricks_hit_brick)
qed

lemma brick_loop_counted: "bricks_counted s \<Longrightarrow> bricks_counted (brick_loop grid_cells s)"
  using brick_loop_grid[of s] hit_brick_counted[of s] by auto

lemma engine_after_brick_counted: "bricks_counted s \<Longrightarrow> bricks_counted (engine_after_brick dt s)"
proof -
  assume a: "bricks_counted s"
  then have b: "bricks_counted (s\<lparr>ball := ball_before_bricks dt s\<rparr>)" by (simp add: bricks_counted_def)
  from brick_loop_counted[OF b] b show ?thesis
    by (simp add: engine_after_brick_def brick_collision_def)
qed

lemma ball_lost_counted: "bricks_counted s \<Longrightarrow> bricks_counted (ball_lost s)"
  by (simp add: bricks_counted_def)

lemma level_cleared_counted: "bricks_counted s \<Longrightarrow> bricks_counted (level_cleared rnd s)"
  by (auto simp: level_cleared_def Let_def reset_level_counted) (simp_all add: bricks_counted_def)

lemma update_collectibles_counted: "bricks_counted s \<Longrightarrow> bricks_counted (update_collectibles dt s)"
  by (simp add: bricks_counted_def)

lemma update_engine_counted: "bricks_counted s \<Longrightarrow> bricks_counted (update_engine rnd dt s)"
  by (simp add: update_engine_def update_collectibles_counted level_cleared_counted
      ball_lost_counted engine_after_brick_counted)

lemma bricks_counted_serve:
  "bricks_counted s \<Longrightarrow> bricks_counted (s\<lparr>ball := b\<rparr>)"
  by (simp add: bricks_counted_def)

lemma bricks_counted_flags:
  "bricks_counted s \<Longrightarrow> bricks_remaining g = bricks_remaining (game_state s) \<Longrightarrow>
   bricks_counted (s\<lparr>game_state := g\<rparr>)"
  by (simp add: bricks_counted_def)

lemma handle_input_counted: "bricks_counted s \<Longrightarrow> bricks_counted (handle_input rnd ev s)"
proof (cases ev)
  case SDL_QUIT
  assume "bricks_counted s"
  then show ?thesis using SDL_QUIT by (simp add: handle_input_def bricks_counted_flags)
next
  case (SDL_KEYDOWN k)
  assume a: "bricks_counted s"
  show ?thesis
  proof (cases k)
    case SDLK_ESCAPE
    then show ?thesis using SDL_KEYDOWN a by (simp add: handle_input_def bricks_counted_flags)
  next
    case SDLK_SPACE
    then show ?thesis using SDL_KEYDOWN a
      by (simp add: handle_input_def start_play_def reset_level_counted bricks_counted_flags
          bricks_counted_serve)
  next
    case SDLK_r
    then show ?thesis using SDL_KEYDOWN by (simp add: handle_input_def reset_game_def reset_level_counted)
  next
    case SDLK_m
    then show ?thesis using SDL_KEYDOWN a by (simp add: handle_input_def)
  next
    case SDLK_other
    then show ?thesis using SDL_KEYDOWN a by (simp add: handle_input_def)
  qed
next
  case (SDL_MOUSEMOTION mx)
  assume "bricks_counted s"
  then show ?thesis using SDL_MOUSEMOTION by (simp add: handle_input_def bricks_counted_def)
next
  case (SDL_MOUSEBUTTONDOWN mx my)
  assume "bricks_counted s"
  then show ?thesis using SDL_MOUSEBUTTONDOWN
    by (simp add: handle_input_def start_play_def reset_level_counted)
next
  case SDL_other
  assume "bricks_counted s"
  then show ?thesis using SDL_other by (simp add: handle_input_def)
qed

lemma handle_inputs_counted:
  "bricks_counted s \<Longrightarrow> bricks_counted (fold (\<lambda>(r, ev) w. handle_input r ev w) evs s)"
  by (induction evs arbitrary: s) (auto simp: handle_input_counted)

lemma main_loop_body_counted:
  "bricks_counted s \<Longrightarrow> bricks_counted (main_loop_body evs left right rnd delta s)"
proof -
  assume "bricks_counted s"
  then have "bricks_counted (fold (\<lambda>(r, ev) w. handle_input r ev w) evs s)"
    by (rule handle_inputs_counted)
  then have "bricks_counted ((fold (\<lambda>(r, ev) w. handle_input r ev w) evs s)
      \<lparr>paddle := keyboard_paddle left right (if delta > 0.05 then 0.05 else delta)
          (paddle (fold (\<lambda>(r, ev) w. handle_input r ev w) evs s))\<rparr>)"
    by (simp add: bricks_counted_def)
  from update_engine_counted[OF this, of rnd "if delta > 0.05 then 0.05 else delta"]
  show ?thesis by (simp add: main_loop_body_def Let_def render_scene_def bricks_counted_def)
qed

text \<open>
  In every state the program reaches at the top of its loop, the array holds its 84
  bricks and \<^verbatim>\<open>bricks_remaining\<close> equals the number of live bricks: \<^verbatim>\<open>reset_level\<close> counts
  them, and a hit kills one live brick and lowers the counter by one.
\<close>

theorem reachable_bricks_counted:
  "reachable s \<Longrightarrow>
     length (bricks s) = BRICK_ROWS * BRICK_COLUMNS \<and>
     bricks_remaining (game_state s) = count_alive (bricks s)"
proof -
  have "reachable s \<Longrightarrow> bricks_counted s"
    by (induction rule: reachable.induct)
       (simp_all add: initial_world_def reset_game_def reset_level_counted main_loop_body_counted)
  then show "reachable s \<Longrightarrow>
     length (bricks s) = BRICK_ROWS * BRICK_COLUMNS \<and>
     bricks_remaining (game_state s) = count_alive (bricks s)"
    by (simp add: bricks_counted_def)
qed


theorem reachable_bricks_counted_witness:
  "reachable start_world \<and>
   length (bricks start_world) = BRICK_ROWS * BRICK_COLUMNS \<and>
   bricks_remaining (game_state start_world) = count_alive (bricks start_world) \<and>
   bricks_remaining (game_state start_world) = 84"
proof -
  have r: "reachable start_world" unfolding start_world_def by (rule reachable_init)
  have n: "level_files s 1 = None \<Longrightarrow> bricks_remaining (game_state (reset_level rnd 1 s)) = 84" for s rnd
    using reset_level_no_file[of s 1 rnd]
    by (simp add: fallback_cells_count fallback_alive_def grid_cells_length)
  have "bricks_remaining (game_state start_world) = 84"
    unfolding start_world_def initial_world_def reset_game_def
    by (rule n) (simp add: load_leaderboard_def load_highscore_def)
  with reachable_bricks_counted[OF r] r show ?thesis by simp
qed

section \<open>The court: theorems\<close>

text \<open>
  The body of the loop is the engine step on the state that the events and the keyboard
  leave, followed by the renderer. Each stage of the engine, each event and the renderer
  keep \<open>court_base\<close>; \<^verbatim>\<open>reset_level\<close> establishes it, and puts the ball on the paddle.
\<close>

lemma main_loop_body_engine:
  "main_loop_body evs left right rnd delta s
     = render_scene (update_engine rnd (delta_time delta) (engine_input evs left right delta s))"
  by (simp add: main_loop_body_def engine_input_def delta_time_def Let_def)

lemma ball_h_before_bricks [simp]: "ball_h (ball_before_bricks dt s) = ball_h (ball s)"
  by (simp add: ball_before_bricks_def paddle_collision_def paddle_bounce_def wall_collision_def
      move_ball_def Let_def)

lemma speed_before_bricks: "0 \<le> speed (ball s) \<Longrightarrow> 0 \<le> speed (ball_before_bricks dt s)"
  by (simp add: ball_before_bricks_def paddle_collision_def paddle_bounce_def wall_collision_def
      move_ball_def Let_def)

lemma ball_h_brick_bounce [simp]: "ball_h (brick_bounce br b) = ball_h b"
  by (simp add: brick_bounce_def Let_def)

lemma speed_brick_bounce [simp]: "speed (brick_bounce br b) = speed b"
  by (simp add: brick_bounce_def Let_def)

lemma map_rect_kill:
  "brick_rect b' = brick_rect (bs ! i) \<Longrightarrow> map brick_rect (bs[i := b']) = map brick_rect bs"
  by (metis list_update_id map_update)

lemma court_base_hit_brick:
  assumes "court_base s" "brick_hit_at s (brick_index r c)" "brick_index r c < BRICK_ROWS * BRICK_COLUMNS"
  shows "court_base (hit_brick r c s)"
proof -
  from assms have c: "bricks_counted (hit_brick r c s)"
    by (intro hit_brick_counted) (simp_all add: court_base_def)
  have p: "map brick_rect (bricks (hit_brick r c s)) = map brick_rect (bricks s)"
    unfolding bricks_hit_brick by (rule map_rect_kill) simp
  have "ball_h (ball (hit_brick r c s)) = ball_h (ball s)" "paddle (hit_brick r c s) = paddle s"
    "speed (ball (hit_brick r c s)) = speed (ball s) * 1.015"
    by (simp_all add: hit_brick_def Let_def)
  with c p assms(1) show ?thesis by (simp add: court_base_def)
qed

lemma court_base_ball:
  "court_base s \<Longrightarrow> ball_h b = ball_h (ball s) \<Longrightarrow> 0 \<le> speed b \<Longrightarrow> court_base (s\<lparr>ball := b\<rparr>)"
  by (simp add: court_base_def bricks_counted_def)

lemma court_base_engine_after_brick:
  assumes "court_base s"
  shows "court_base (engine_after_brick dt s)"
proof -
  let ?s = "s\<lparr>ball := ball_before_bricks dt s\<rparr>"
  from assms have b: "court_base ?s"
    by (intro court_base_ball) (simp_all add: speed_before_bricks court_base_def)
  from brick_loop_grid[of ?s] court_base_hit_brick[OF b] b
  have "court_base (brick_loop grid_cells ?s)" by auto
  with b show ?thesis by (simp add: engine_after_brick_def brick_collision_def)
qed

lemma court_base_save [simp]:
  "court_base (save_highscore s) = court_base s"
  "court_base (add_to_leaderboard sc s) = court_base s"
  "court_base (s\<lparr>high_score := h\<rparr>) = court_base s"
  by (simp_all add: court_base_def bricks_counted_def save_highscore_def add_to_leaderboard_def
      save_leaderboard_def Let_def)

lemma court_base_flags:
  "court_base s \<Longrightarrow> bricks_remaining g = bricks_remaining (game_state s) \<Longrightarrow>
   court_base (s\<lparr>game_state := g\<rparr>)"
  by (simp add: court_base_def bricks_counted_def)

lemma court_base_ball_lost: "court_base s \<Longrightarrow> court_base (ball_lost s)"
  by (auto simp: ball_lost_def Let_def court_base_flags)
     (simp_all add: court_base_def bricks_counted_def)

lemma brick_rect_file_cell [simp]: "brick_rect (file_cell lns lv r c) = cell_rect r c"
  by (simp add: file_cell_def Let_def)

lemma court_base_reset_level:
  assumes "ball_h (ball s) = real_of_int BALL_SIZE"
  shows "court_base (reset_level rnd lv s)"
proof -
  have "map brick_rect (bricks (reset_level rnd lv s)) = map (\<lambda>(r, c). cell_rect r c) grid_cells"
  proof (cases "level_files s lv")
    case None
    from reset_level_no_file[OF None, of rnd] show ?thesis by (simp add: fallback_cells_rect)
  next
    case (Some lns)
    then show ?thesis
      by (auto simp: reset_level_def load_level_from_file_def Let_def)
  qed
  moreover have "ball_h (ball (reset_level rnd lv s)) = ball_h (ball s)"
    "paddle_y (paddle (reset_level rnd lv s)) = real_of_int (WINDOW_HEIGHT - PADDLE_Y_OFFSET)"
    "speed (ball (reset_level rnd lv s)) = 420"
    by (auto simp: reset_level_def load_level_from_file_def Let_def split: option.splits prod.splits)
  ultimately show ?thesis using assms reset_level_counted[of rnd lv s] by (simp add: court_base_def)
qed

lemma court_base_level_cleared: "court_base s \<Longrightarrow> court_base (level_cleared rnd s)"
proof -
  assume a: "court_base s"
  then have h: "ball_h (ball s) = real_of_int BALL_SIZE" by (simp add: court_base_def)
  show ?thesis
    using a h by (auto simp: level_cleared_def Let_def court_base_flags court_base_reset_level)
qed

lemma paddle_y_clamp [simp]: "paddle_y (clamp_paddle_position p) = paddle_y p"
  by (simp add: clamp_paddle_position_def Let_def)

lemma paddle_y_update_collectibles_loop:
  "paddle_y (snd (update_collectibles_loop dt ks p)) = paddle_y p"
proof (induction ks arbitrary: p)
  case Nil
  then show ?case by simp
next
  case (Cons k ks)
  let ?q = "set_paddle_w (paddle_w p + 40) p"
  let ?q1 = "if paddle_w ?q > real_of_int (WINDOW_WIDTH div 2)
             then set_paddle_w (real_of_int (WINDOW_WIDTH div 2)) ?q else ?q"
  show ?case using Cons.IH[of p] Cons.IH[of "clamp_paddle_position ?q1"]
    by (auto simp: Let_def split: prod.splits)
qed

lemma court_base_update_collectibles: "court_base s \<Longrightarrow> court_base (update_collectibles dt s)"
  using paddle_y_update_collectibles_loop[of dt "collectibles s" "paddle s"]
  by (auto simp: update_collectibles_def court_base_def bricks_counted_def split: prod.splits)

lemma court_base_update_engine: "court_base s \<Longrightarrow> court_base (update_engine rnd dt s)"
  by (simp add: update_engine_def court_base_update_collectibles court_base_level_cleared
      court_base_ball_lost court_base_engine_after_brick)

text \<open>
  The second part of \<open>court_ok\<close>. A step in play ends with the level-clear block, which
  leaves bricks, ends the game or calls \<^verbatim>\<open>reset_level\<close>; the serve sends the ball up.
\<close>

lemma reset_level_ball:
  "ball_y (ball (reset_level rnd lv s)) = real_of_int (WINDOW_HEIGHT - PADDLE_Y_OFFSET) - ball_h (ball s) - 2 \<and>
   is_held (ball (reset_level rnd lv s))"
  by (auto simp: reset_level_def load_level_from_file_def Let_def split: option.splits prod.splits)

lemma court_ok_reset_level:
  assumes "ball_h (ball s) = real_of_int BALL_SIZE"
  shows "court_ok (reset_level rnd lv s)"
  using court_base_reset_level[OF assms, of rnd lv] reset_level_ball[of rnd lv s] assms
  by (simp add: court_ok_def)

lemma is_running_update_collectibles [simp]:
  "game_state (update_collectibles dt s) = game_state s"
  by (simp add: update_collectibles_def split: prod.splits)

lemma court_ok_level_cleared:
  assumes "court_base s"
  shows "court_ok (level_cleared rnd s)"
proof (cases "bricks_remaining (game_state s) \<le> 0")
  case False
  then show ?thesis using assms by (simp add: level_cleared_def court_ok_def)
next
  case True
  from assms have h: "ball_h (ball s) = real_of_int BALL_SIZE" by (simp add: court_base_def)
  show ?thesis
  proof (cases "level (game_state s) + 1 > MAX_LEVELS")
    case True
    with \<open>bricks_remaining (game_state s) \<le> 0\<close> court_base_level_cleared[OF assms, of rnd]
    show ?thesis by (simp add: court_ok_def) (simp add: level_cleared_def Let_def)
  next
    case False
    with True have "level_cleared rnd s
        = reset_level rnd (level (game_state s) + 1)
            (s\<lparr>game_state := (game_state s)\<lparr>level := level (game_state s) + 1\<rparr>\<rparr>)"
      by (simp add: level_cleared_def Let_def)
    with court_ok_reset_level[of "s\<lparr>game_state := (game_state s)\<lparr>level := level (game_state s) + 1\<rparr>\<rparr>"] h
    show ?thesis by simp
  qed
qed

lemma court_ok_update_collectibles: "court_ok s \<Longrightarrow> court_ok (update_collectibles dt s)"
proof -
  assume a: "court_ok s"
  have "ball (update_collectibles dt s) = ball s"
    by (simp add: update_collectibles_def split: prod.splits)
  with a court_base_update_collectibles[of s dt] show ?thesis by (simp add: court_ok_def)
qed

lemma court_ok_update_engine: "court_ok s \<Longrightarrow> court_ok (update_engine rnd dt s)"
  by (simp add: update_engine_def court_ok_update_collectibles court_ok_level_cleared
      court_base_ball_lost court_base_engine_after_brick court_ok_def[of s])

lemma vy_serve_ball: "vy (serve_ball rnd b) \<le> 0"
  by (simp add: serve_ball_def Let_def divide_nonpos_nonneg)

lemma court_ok_serve:
  assumes "court_ok s" "is_held (ball s)"
  shows "court_ok (s\<lparr>ball := serve_ball rnd (ball s)\<rparr>)"
proof -
  have "ball_rect (serve_ball rnd (ball s)) = ball_rect (ball s)" "speed (serve_ball rnd (ball s)) = speed (ball s)"
    by (simp_all add: serve_ball_def Let_def)
  with assms vy_serve_ball[of rnd "ball s"] show ?thesis
    by (simp add: court_ok_def court_base_def bricks_counted_def)
qed

lemma court_ok_flags:
  "court_ok s \<Longrightarrow> bricks_remaining g = bricks_remaining (game_state s) \<Longrightarrow>
   (is_running g \<longrightarrow> is_running (game_state s)) \<Longrightarrow> court_ok (s\<lparr>game_state := g\<rparr>)"
  by (auto simp: court_ok_def court_base_def bricks_counted_def)

lemma court_ok_start_play: "court_ok s \<Longrightarrow> court_ok (start_play rnd s)"
proof -
  assume "court_ok s"
  then have "ball_h (ball s) = real_of_int BALL_SIZE" by (simp add: court_ok_def court_base_def)
  then show ?thesis unfolding start_play_def by (intro court_ok_reset_level) simp
qed

lemma court_ok_handle_input: "court_ok s \<Longrightarrow> court_ok (handle_input rnd ev s)"
proof (cases ev)
  case SDL_QUIT
  assume "court_ok s"
  then show ?thesis using SDL_QUIT by (simp add: handle_input_def court_ok_flags)
next
  case (SDL_KEYDOWN k)
  assume a: "court_ok s"
  show ?thesis
  proof (cases k)
    case SDLK_ESCAPE
    then show ?thesis using SDL_KEYDOWN a by (simp add: handle_input_def court_ok_flags)
  next
    case SDLK_SPACE
    then show ?thesis using SDL_KEYDOWN a
      by (simp add: handle_input_def court_ok_start_play court_ok_flags court_ok_serve)
  next
    case SDLK_r
    from a have "ball_h (ball s) = real_of_int BALL_SIZE" by (simp add: court_ok_def court_base_def)
    then show ?thesis using SDL_KEYDOWN SDLK_r
      by (simp add: handle_input_def reset_game_def court_ok_reset_level)
  next
    case SDLK_m
    then show ?thesis using SDL_KEYDOWN a by (simp add: handle_input_def)
  next
    case SDLK_other
    then show ?thesis using SDL_KEYDOWN a by (simp add: handle_input_def)
  qed
next
  case (SDL_MOUSEMOTION mx)
  assume "court_ok s"
  then show ?thesis using SDL_MOUSEMOTION
    by (simp add: handle_input_def court_ok_def court_base_def bricks_counted_def)
next
  case (SDL_MOUSEBUTTONDOWN mx my)
  assume "court_ok s"
  then show ?thesis using SDL_MOUSEBUTTONDOWN
    by (simp add: handle_input_def court_ok_start_play)
next
  case SDL_other
  assume "court_ok s"
  then show ?thesis using SDL_other by (simp add: handle_input_def)
qed

lemma court_ok_handle_inputs:
  "court_ok s \<Longrightarrow> court_ok (fold (\<lambda>(r, ev) w. handle_input r ev w) evs s)"
  by (induction evs arbitrary: s) (auto simp: court_ok_handle_input)

lemma paddle_y_keyboard [simp]: "paddle_y (keyboard_paddle left right dt p) = paddle_y p"
  by (simp add: keyboard_paddle_def Let_def)

lemma court_ok_engine_input: "court_ok s \<Longrightarrow> court_ok (engine_input evs left right delta s)"
proof -
  assume "court_ok s"
  then have "court_ok (fold (\<lambda>(r, ev) w. handle_input r ev w) evs s)" by (rule court_ok_handle_inputs)
  then show ?thesis
    by (simp add: engine_input_def Let_def court_ok_def court_base_def bricks_counted_def)
qed

lemma court_ok_render: "court_ok s \<Longrightarrow> court_ok (render_scene s)"
  by (simp add: render_scene_def court_ok_def court_base_def bricks_counted_def)

lemma court_ok_main_loop_body: "court_ok s \<Longrightarrow> court_ok (main_loop_body evs left right rnd delta s)"
  unfolding main_loop_body_engine
  by (intro court_ok_render court_ok_update_engine court_ok_engine_input)

lemma court_ok_initial_world: "court_ok (initial_world lf hf lbf wr rnd)"
  unfolding initial_world_def reset_game_def
  by (rule court_ok_reset_level) (simp add: load_leaderboard_def load_highscore_def zero_rect_def split: option.splits)

lemma reachable_court_ok: "reachable s \<Longrightarrow> court_ok s"
  by (induction rule: reachable.induct) (simp_all add: court_ok_initial_world court_ok_main_loop_body)

lemma placed_bottom:
  assumes "map brick_rect bs = map (\<lambda>(r, c). cell_rect r c) grid_cells" "i < length bs"
  shows "rect_y (brick_rect (bs ! i)) + rect_h (brick_rect (bs ! i)) \<le> 296 \<and>
         0 \<le> rect_h (brick_rect (bs ! i))"
proof -
  from assms(1) have l: "length bs = length grid_cells" by (metis length_map)
  obtain r c where rc: "grid_cells ! i = (r, c)" by (cases "grid_cells ! i")
  from assms(2) l have "(r, c) \<in> set grid_cells" using rc by (metis nth_mem)
  then have r: "r < 7" by (auto simp: grid_cells_def)
  have "brick_rect (bs ! i) = map brick_rect bs ! i" using assms(2) by simp
  also have "\<dots> = cell_rect r c" unfolding assms(1) using assms(2) l rc by simp
  finally have "brick_rect (bs ! i) = cell_rect r c" .
  moreover from r have "int r * 32 \<le> 192" by simp
  ultimately show ?thesis by (simp add: cell_rect_def)
qed

text \<open>A ball that has just been pushed out of a brick is not below the lowest row.\<close>

lemma hit_ball_low:
  assumes "court_base s" "brick_hit_at s (brick_index r c)"
    "brick_index r c < BRICK_ROWS * BRICK_COLUMNS"
  shows "ball_y (ball (hit_brick r c s)) \<le> 296"
proof -
  let ?br = "brick_rect (bricks s ! brick_index r c)"
  from assms(1,3) have "brick_index r c < length (bricks s)"
    by (simp add: court_base_def bricks_counted_def)
  with assms(1) placed_bottom[of "bricks s" "brick_index r c"]
  have b: "rect_y ?br + rect_h ?br \<le> 296" "0 \<le> rect_h ?br" by (simp_all add: court_base_def)
  from assms(2) have o: "ball_y (ball s) < rect_y ?br + rect_h ?br"
    by (simp add: brick_hit_at_def rect_overlap_def)
  from assms(1) have h: "ball_h (ball s) = 14" by (simp add: court_base_def)
  have "ball_y (brick_bounce ?br (ball s)) \<le> 296"
    using b o h by (simp add: brick_bounce_def Let_def)
  then show ?thesis by (simp add: hit_brick_def Let_def)
qed

text \<open>A ball that starts in the field and does not move down is in the field when the
  scan of the grid starts.\<close>

lemma before_bricks_low:
  assumes "vy (ball s) \<le> 0" "0 \<le> speed (ball s)" "0 \<le> dt" "ball_y (ball s) \<le> WINDOW_HEIGHT"
    and "ball_h (ball s) = real_of_int BALL_SIZE"
    and "paddle_y (paddle s) = real_of_int (WINDOW_HEIGHT - PADDLE_Y_OFFSET)"
    and "\<not> is_held (ball s)"
  shows "ball_y (ball_before_bricks dt s) \<le> WINDOW_HEIGHT"
proof -
  from assms(1-3) have "vy (ball s) * speed (ball s) * dt \<le> 0"
    by (simp add: mult_nonneg_nonneg mult_nonpos_nonneg)
  with assms(4-7) show ?thesis
    by (simp add: ball_before_bricks_def paddle_collision_def paddle_bounce_def wall_collision_def
        move_ball_def Let_def)
qed

text \<open>
  In a state the loop reaches, when the engine runs and its ball ends below the field,
  bricks remain: the ball of a level without bricks starts on the paddle and moves up,
  and a ball that has just destroyed a brick is next to it.
\<close>

lemma lost_keeps_bricks:
  assumes "court_ok s" "playing s" "0 \<le> dt"
    and "\<not> is_held (ball (engine_after_brick dt s))"
    and "ball_y (ball (engine_after_brick dt s)) > WINDOW_HEIGHT"
  shows "0 < bricks_remaining (game_state (engine_after_brick dt s))"
proof -
  let ?s = "s\<lparr>ball := ball_before_bricks dt s\<rparr>"
  from assms(1) have base: "court_base s" by (simp add: court_ok_def)
  then have b: "court_base ?s"
    by (intro court_base_ball) (simp_all add: speed_before_bricks court_base_def)
  from assms(4) have nh: "\<not> is_held (ball s)"
    by (auto simp: engine_after_brick_def brick_collision_def split: if_splits)
  then have e: "engine_after_brick dt s = brick_loop grid_cells ?s"
    by (simp add: engine_after_brick_def brick_collision_def)
  from brick_loop_grid[of ?s]
  consider "brick_loop grid_cells ?s = ?s"
    | r c where "brick_hit_at ?s (brick_index r c)" "brick_index r c < BRICK_ROWS * BRICK_COLUMNS"
        "brick_loop grid_cells ?s = hit_brick r c ?s"
    by blast
  then show ?thesis
  proof cases
    case 1
    show ?thesis
    proof (rule ccontr)
      assume "\<not> 0 < bricks_remaining (game_state (engine_after_brick dt s))"
      then have "bricks_remaining (game_state s) \<le> 0" by (simp add: e 1)
      with assms(1,2) nh have "ball_y (ball s) \<le> WINDOW_HEIGHT" "vy (ball s) \<le> 0"
        by (simp_all add: court_ok_def playing_def)
      from before_bricks_low[OF this(2) _ assms(3) this(1) _ _ nh] base
      have "ball_y (ball_before_bricks dt s) \<le> WINDOW_HEIGHT" by (simp add: court_base_def)
      with assms(5) show False by (simp add: e 1)
    qed
  next
    case 2
    from hit_ball_low[OF b 2(1,2)] assms(5) show ?thesis by (simp add: e 2(3))
  qed
qed

lemma persist_log_handle_input [simp]: "persist_log (handle_input rnd ev s) = persist_log s"
proof -
  have r: "persist_log (reset_level rnd' lv s') = persist_log s'" for rnd' lv s'
    by (auto simp: reset_level_def load_level_from_file_def Let_def split: option.splits prod.splits)
  show ?thesis
  proof (cases ev)
    case (SDL_KEYDOWN k)
    then show ?thesis by (cases k) (simp_all add: handle_input_def start_play_def reset_game_def r)
  qed (simp_all add: handle_input_def start_play_def r)
qed

lemma persist_log_engine_input [simp]: "persist_log (engine_input evs left right delta s) = persist_log s"
proof -
  have "persist_log (fold (\<lambda>(r, ev) w. handle_input r ev w) evs s) = persist_log s"
    by (induction evs arbitrary: s) auto
  then show ?thesis by (simp add: engine_input_def Let_def)
qed

lemma delta_time_nonneg: "0 \<le> delta \<Longrightarrow> 0 \<le> delta_time delta"
  by (simp add: delta_time_def)

text \<open>
  The engine step of a pass that loses the last life: the session ends, and
  \<^verbatim>\<open>add_to_leaderboard\<close> is called once, with the final score.
\<close>

lemma last_life_engine:
  assumes "reachable s" and "0 \<le> delta"
    and "playing (engine_input evs left right delta s)"
    and "lives (game_state (engine_input evs left right delta s)) = 1"
    and "\<not> is_held (ball (engine_after_brick (delta_time delta) (engine_input evs left right delta s)))"
    and "ball_y (ball (engine_after_brick (delta_time delta) (engine_input evs left right delta s)))
           > WINDOW_HEIGHT"
  shows "\<not> is_running (game_state (update_engine rnd (delta_time delta) (engine_input evs left right delta s))) \<and>
         show_menu (game_state (update_engine rnd (delta_time delta) (engine_input evs left right delta s))) \<and>
         lives (game_state (update_engine rnd (delta_time delta) (engine_input evs left right delta s))) = 0 \<and>
         filter is_add_to_leaderboard
           (new_calls (engine_input evs left right delta s)
              (update_engine rnd (delta_time delta) (engine_input evs left right delta s)))
           = [Add_To_Leaderboard
                (score (game_state (update_engine rnd (delta_time delta) (engine_input evs left right delta s))))]"
proof -
  let ?i = "engine_input evs left right delta s"
  let ?dt = "delta_time delta"
  let ?a = "engine_after_brick ?dt ?i"
  have ok: "court_ok ?i" by (intro court_ok_engine_input reachable_court_ok assms(1))
  have br: "0 < bricks_remaining (game_state ?a)"
    by (rule lost_keeps_bricks[OF ok assms(3) delta_time_nonneg[OF assms(2)] assms(5,6)])
  have l1: "lives (game_state ?a) = 1" using assms(4) by simp
  note bl = ball_lost_last_life[OF assms(5,6) l1]
  have "0 < bricks_remaining (game_state (ball_lost ?a))" using br by simp
  then have lc: "level_cleared rnd (ball_lost ?a) = ball_lost ?a" by (rule level_cleared_bricks_left)
  have ue: "update_engine rnd ?dt ?i = update_collectibles ?dt (ball_lost ?a)"
    using assms(3) by (simp add: update_engine_def playing_def lc)
  have nc: "new_calls ?i (update_engine rnd ?dt ?i) = new_calls ?a (ball_lost ?a)"
    by (simp add: ue new_calls_def)
  show ?thesis unfolding nc using bl by (simp add: ue)
qed

section \<open>A session played out: theorems\<close>

text \<open>
  A session of \<^verbatim>\<open>arkanoid_full.c\<close> pass by pass. The mouse puts the paddle so that the held
  ball is under the sixth column; the serve goes straight up and the mouse takes the
  paddle to the left edge; after twelve passes of a twentieth of a second the ball is at
  height 308, and in the next pass it destroys the brick of the bottom row and turns
  down. From there either escape and space arm the level again, with the score kept, or
  the ball falls for seventeen passes and a life is lost.
\<close>

lemma fallback_cells_level1:
  "\<forall>k. c_mod (rnd k) 18 \<noteq> 0 \<Longrightarrow>
   fallback_cells rnd 1 cells n =
     (map (\<lambda>(r, c). \<lparr>brick_rect = cell_rect r c, is_alive = True,
                        color_index = c_mod (int r + int c + 1) 10, special = False\<rparr>) cells,
      n + length cells)"
  by (induction cells arbitrary: n) (auto split: prod.splits)

lemma fallback_full_grid: "fallback_cells (\<lambda>_. 1) 1 grid_cells 0 = (full_grid, 84)"
  by (simp add: fallback_cells_level1 c_mod_def c_div_def full_grid_def grid_cells_length)

lemma update_collectibles_dead [simp]:
  "update_collectibles_loop dt dead_collectibles p = (dead_collectibles, p)"
  by (simp add: dead_collectibles_def eval_nat_numeral)

lemma map_dead [simp]: "map (\<lambda>k. k\<lparr>coll_alive := False\<rparr>) dead_collectibles = dead_collectibles"
  by (simp add: dead_collectibles_def)

lemma start_world_eval:
  "start_world = (in_play 0 3 full_grid 84 410 ((ball_at 560 (- 1) 420 True)\<lparr>ball_rect := \<lparr>rect_x = 473, rect_y = 560, rect_w = 14, rect_h = 14\<rparr>\<rparr>))
      \<lparr>game_state := \<lparr>score = 0, lives = 3, level = 1, bricks_remaining = 84,
                     is_paused = False, is_running = True, show_menu = True\<rparr>\<rparr>"
  by (simp add: start_world_def initial_world_def reset_game_def reset_level_def
      load_level_from_file_def load_leaderboard_def load_highscore_def fallback_full_grid
      in_play_def ball_at_def zero_rect_def Let_def dead_collectibles_def)

lemma grid_cells_nth: "i < 84 \<Longrightarrow> grid_cells ! i = (i div 12, i mod 12)"
proof -
  assume i: "i < 84"
  obtain r c where rc: "grid_cells ! i = (r, c)" by (cases "grid_cells ! i")
  from i have "(r, c) \<in> set grid_cells" using rc grid_cells_length by (metis nth_mem)
  then have c: "c < 12" by (auto simp: grid_cells_def)
  have "map (\<lambda>(r, c). brick_index r c) grid_cells ! i = [0 ..< 84] ! i"
    using brick_index_grid_cells by simp
  with i rc have "r * 12 + c = i" by (simp add: grid_cells_length brick_index_def)
  with c show ?thesis using rc by auto
qed

lemma full_grid_nth:
  "i < 84 \<Longrightarrow> brick_rect (full_grid ! i) = cell_rect (i div 12) (i mod 12) \<and>
     is_alive (full_grid ! i) \<and> \<not> special (full_grid ! i)"
  by (simp add: full_grid_def grid_cells_length grid_cells_nth)

lemma brick_loop_below:
  assumes "length (bricks s) = 84"
    and "\<forall>i < 84. is_alive (bricks s ! i) \<longrightarrow>
           rect_y (brick_rect (bricks s ! i)) + rect_h (brick_rect (bricks s ! i)) \<le> ball_y (ball s)"
  shows "brick_loop grid_cells s = s"
proof -
  have "\<not> brick_hit_at s i" if "i < 84" for i
    using assms(2) that by (auto simp: brick_hit_at_def rect_overlap_def)
  with brick_loop_grid[of s] show ?thesis by auto
qed

lemma full_grid_bottom: "i < 84 \<Longrightarrow> rect_y (brick_rect (full_grid ! i)) + rect_h (brick_rect (full_grid ! i)) \<le> 296"
  using full_grid_above[of "full_grid ! i"] by (simp add: full_grid_length)

lemma full_grid_under:
  "296 \<le> y \<Longrightarrow> \<forall>i < 84. is_alive (full_grid ! i) \<longrightarrow>
     rect_y (brick_rect (full_grid ! i)) + rect_h (brick_rect (full_grid ! i)) \<le> y"
proof (intro allI impI)
  fix i :: nat assume "296 \<le> y" "i < 84"
  with full_grid_bottom[of i] show "rect_y (brick_rect (full_grid ! i)) + rect_h (brick_rect (full_grid ! i)) \<le> y"
    by linarith
qed

lemma one_gone_length: "length one_gone = 84"
  by (simp add: one_gone_def full_grid_length)

lemma one_gone_bottom: "i < 84 \<Longrightarrow> rect_y (brick_rect (one_gone ! i)) + rect_h (brick_rect (one_gone ! i)) \<le> 296"
  using full_grid_bottom[of i] by (auto simp: one_gone_def nth_list_update full_grid_length)

lemma hit_brick_index:
  "brick_index r c = brick_index r' c' \<Longrightarrow> hit_brick r c s = hit_brick r' c' s"
  by (simp add: hit_brick_def add_score_for_brick_def)

lemma brick_loop_first_hit:
  assumes "brick_hit_at s (brick_index r c)" "brick_index r c < 84"
    and "\<forall>m < brick_index r c. \<not> brick_hit_at s m"
  shows "brick_loop grid_cells s = hit_brick r c s"
proof -
  from brick_loop_grid[of s] assms(1,2)
  obtain r' c' where h: "brick_hit_at s (brick_index r' c')"
      "\<forall>m < brick_index r' c'. \<not> brick_hit_at s m" "brick_loop grid_cells s = hit_brick r' c' s"
    by auto
  from h(1,2) assms(1,3) have "brick_index r' c' = brick_index r c"
    by (meson linorder_neqE_nat)
  from hit_brick_index[OF this] h(3) show ?thesis by simp
qed

lemma after_brick_free:
  assumes "length bs = 84"
    and "\<forall>i < 84. is_alive (bs ! i) \<longrightarrow>
           rect_y (brick_rect (bs ! i)) + rect_h (brick_rect (bs ! i)) \<le> y + v * sp * dt"
    and "0 < y + v * sp * dt" and "v \<le> 0 \<or> px + 140 \<le> 433"
  shows "engine_after_brick dt (in_play sc lvs bs n px (ball_at y v sp False))
           = in_play sc lvs bs n px (ball_at (y + v * sp * dt) v sp False)"
proof -
  let ?s = "in_play sc lvs bs n px (ball_at y v sp False)"
  let ?b = "ball_at (y + v * sp * dt) v sp False"
  have b: "ball_before_bricks dt ?s = ?b"
    using assms(3,4)
    by (auto simp: ball_before_bricks_def move_ball_def wall_collision_def paddle_collision_def
        paddle_bounce_def rect_overlap_def in_play_def ball_at_def Let_def)
  have "brick_loop grid_cells (?s\<lparr>ball := ?b\<rparr>) = ?s\<lparr>ball := ?b\<rparr>"
  proof (rule brick_loop_below)
    show "length (bricks (?s\<lparr>ball := ?b\<rparr>)) = 84"
      using assms(1) by (simp add: in_play_def)
    show "\<forall>i<84. is_alive (bricks (?s\<lparr>ball := ?b\<rparr>) ! i) \<longrightarrow>
           rect_y (brick_rect (bricks (?s\<lparr>ball := ?b\<rparr>) ! i)) +
           rect_h (brick_rect (bricks (?s\<lparr>ball := ?b\<rparr>) ! i))
           \<le> ball_y (ball (?s\<lparr>ball := ?b\<rparr>))"
      using assms(2) by (simp add: in_play_def ball_at_def)
  qed
  then have "engine_after_brick dt ?s = ?s\<lparr>ball := ?b\<rparr>"
    by (simp add: engine_after_brick_def brick_collision_def b)
  then show ?thesis by (simp add: in_play_def)
qed

lemma engine_flight:
  assumes "length bs = 84"
    and "\<forall>i < 84. is_alive (bs ! i) \<longrightarrow>
           rect_y (brick_rect (bs ! i)) + rect_h (brick_rect (bs ! i)) \<le> y + v * sp * dt"
    and "0 < y + v * sp * dt" and "v \<le> 0 \<or> px + 140 \<le> 433"
    and "y + v * sp * dt \<le> 640" and "0 < n"
  shows "update_engine rnd dt (in_play sc lvs bs n px (ball_at y v sp False))
           = in_play sc lvs bs n px (ball_at (y + v * sp * dt) v sp False)"
  using assms(5,6)
  by (simp add: update_engine_def after_brick_free[OF assms(1-4)])
     (simp add: in_play_def ball_at_def ball_lost_def level_cleared_def update_collectibles_def)

lemma engine_life_lost:
  assumes "length bs = 84"
    and "\<forall>i < 84. is_alive (bs ! i) \<longrightarrow>
           rect_y (brick_rect (bs ! i)) + rect_h (brick_rect (bs ! i)) \<le> y + v * sp * dt"
    and "v \<le> 0 \<or> px + 140 \<le> 433"
    and "640 < y + v * sp * dt" and "0 < n" and "1 < lvs"
  shows "update_engine rnd dt (in_play sc lvs bs n px (ball_at y v sp False))
           = in_play sc (lvs - 1) bs n 410 (ball_at (y + v * sp * dt) (- 1) 420 True)"
proof -
  from assms(4) have "0 < y + v * sp * dt" by simp
  from after_brick_free[OF assms(1,2) this assms(3)] assms(4-6) show ?thesis
    by (simp add: update_engine_def)
       (simp add: in_play_def ball_at_def ball_lost_def level_cleared_def update_collectibles_def Let_def)
qed

lemma engine_held:
  assumes "0 < n"
  shows "update_engine rnd dt (in_play sc lvs bs n px (b\<lparr>is_held := True\<rparr>))
           = in_play sc lvs bs n px
               (b\<lparr>is_held := True,
                   ball_rect := (ball_rect b)\<lparr>rect_x := px + (140 - ball_w b) / 2,
                                               rect_y := 576 - ball_h b - 2\<rparr>\<rparr>)"
  using assms
  by (simp add: update_engine_def engine_after_brick_def brick_collision_def ball_before_bricks_def
      move_ball_def wall_collision_def paddle_collision_def paddle_bounce_def
      in_play_def ball_lost_def level_cleared_def update_collectibles_def Let_def)

lemma full_grid_77:
  "full_grid ! 77 = \<lparr>brick_rect = \<lparr>rect_x = 402, rect_y = 272, rect_w = 76, rect_h = 24\<rparr>,
                     is_alive = True, color_index = 2, special = False\<rparr>"
  by (simp add: full_grid_def grid_cells_length grid_cells_nth cell_rect_def c_mod_def c_div_def)

lemma engine_hit:
  "update_engine rnd (1 / 20) (flying sc lvs full_grid 84 308 (- 1) 420)
     = flying (c_int32 (sc + 10)) lvs one_gone 83 296 1 (4263 / 10)"
proof -
  let ?s = "flying sc lvs full_grid 84 308 (- 1) 420"
  let ?b = "ball_at 287 (- 1) 420 False"
  have b: "ball_before_bricks (1 / 20) ?s = ?b"
    by (simp add: ball_before_bricks_def move_ball_def wall_collision_def paddle_collision_def
        paddle_bounce_def flying_def in_play_def ball_at_def Let_def)
  have i77: "brick_index 6 5 = 77" by (simp add: brick_index_def)
  have hit: "brick_hit_at (?s\<lparr>ball := ?b\<rparr>) (brick_index 6 5)"
    unfolding i77
    by (simp add: brick_hit_at_def flying_def in_play_def ball_at_def full_grid_77 rect_overlap_def)
  have nohit: "\<forall>m < brick_index 6 5. \<not> brick_hit_at (?s\<lparr>ball := ?b\<rparr>) m"
  proof (intro allI impI)
    fix m assume "m < brick_index 6 5"
    then have m: "m < 77" by (simp add: i77)
    then have m84: "m < 84" by simp
    have "m div 12 \<le> 5 \<or> m div 12 = 6 \<and> m mod 12 < 5" using m by presburger
    then have "rect_y (cell_rect (m div 12) (m mod 12)) + rect_h (cell_rect (m div 12) (m mod 12)) \<le> 287 \<or>
          rect_x (cell_rect (m div 12) (m mod 12)) + rect_w (cell_rect (m div 12) (m mod 12)) \<le> 433"
    proof
      assume "m div 12 \<le> 5"
      then have "int (m div 12) * 32 \<le> 160" by simp
      then show ?thesis by (simp add: cell_rect_def)
    next
      assume "m div 12 = 6 \<and> m mod 12 < 5"
      then have "int (m mod 12) * 80 \<le> 320" by simp
      then show ?thesis by (simp add: cell_rect_def)
    qed
    with full_grid_nth[OF m84] show "\<not> brick_hit_at (?s\<lparr>ball := ?b\<rparr>) m"
      by (auto simp: brick_hit_at_def flying_def in_play_def ball_at_def rect_overlap_def)
  qed
  have "brick_loop grid_cells (?s\<lparr>ball := ?b\<rparr>) = hit_brick 6 5 (?s\<lparr>ball := ?b\<rparr>)"
    by (rule brick_loop_first_hit[OF hit _ nohit]) (simp add: i77)
  then have e: "engine_after_brick (1 / 20) ?s = hit_brick 6 5 (?s\<lparr>ball := ?b\<rparr>)"
    by (simp add: engine_after_brick_def brick_collision_def b) (simp add: ball_at_def)
  have h: "hit_brick 6 5 (?s\<lparr>ball := ?b\<rparr>) = flying (c_int32 (sc + 10)) lvs one_gone 83 296 1 (4263 / 10)"
    by (simp add: hit_brick_def i77 full_grid_77 brick_bounce_def add_score_for_brick_def Let_def
        flying_def in_play_def ball_at_def one_gone_def)
  show ?thesis
    unfolding update_engine_def e h
    by (simp add: flying_def in_play_def ball_at_def ball_lost_def level_cleared_def update_collectibles_def)
qed

lemma main_loop_body_events:
  "main_loop_body evs left right rnd delta s
     = main_loop_body [] left right rnd delta (fold (\<lambda>(r, ev) w. handle_input r ev w) evs s)"
  by (simp add: main_loop_body_def)

lemma frame_in_play:
  assumes "0 \<le> px" "px \<le> 820"
  shows "main_loop_body [] False False rnd delta (in_play sc lvs bs n px b)
           = render_scene (update_engine rnd (if delta > 0.05 then 0.05 else delta)
               (in_play sc lvs bs n px b))"
proof -
  have "keyboard_paddle False False dt (paddle (in_play sc lvs bs n px b))
          = paddle (in_play sc lvs bs n px b)" for dt
    using assms by (simp add: keyboard_paddle_def clamp_paddle_position_def in_play_def Let_def)
  then show ?thesis by (simp add: main_loop_body_def Let_def)
qed

lemma render_in_play [simp]: "render_scene (in_play sc lvs bs n px b) = in_play sc lvs bs n px b"
  by (simp add: render_scene_def in_play_def)

lemma serve_straight: "serve_ball (\<lambda>_. 60) (ball_at y v sp True) = ball_at y (- 1) sp False"
  by (simp add: serve_ball_def ball_at_def c_mod_def c_div_def Let_def)

lemma handle_serve:
  "handle_input (\<lambda>_. 60) (SDL_KEYDOWN SDLK_SPACE) (in_play sc lvs bs n px (ball_at y v sp True))
     = in_play sc lvs bs n px (ball_at y (- 1) sp False)"
proof -
  have "is_held (ball_at y v sp True)" by (simp add: ball_at_def)
  then show ?thesis by (simp add: handle_input_def in_play_def serve_straight)
qed

lemma handle_mouse:
  assumes "70 \<le> mx" "mx \<le> 890"
  shows "handle_input r (SDL_MOUSEMOTION mx) (in_play sc lvs bs n px b)
     = in_play sc lvs bs n (real_of_int mx - 70) b"
  using assms by (simp add: handle_input_def in_play_def clamp_paddle_position_def Let_def)

lemma handle_mouse_left:
  "handle_input r (SDL_MOUSEMOTION 0) (in_play sc lvs bs n px b) = in_play sc lvs bs n 0 b"
  by (simp add: handle_input_def in_play_def clamp_paddle_position_def Let_def)

lemma start_play_in_play:
  assumes "ball_w b = 14" "ball_h b = 14"
  shows "start_play (\<lambda>_. 1) ((in_play sc lvs bs n px b)
            \<lparr>game_state := (game_state (in_play sc lvs bs n px b))\<lparr>show_menu := True\<rparr>\<rparr>)
     = in_play sc lvs full_grid 84 410
         (b\<lparr>ball_rect := (ball_rect b)\<lparr>rect_x := 473, rect_y := 560\<rparr>,
             vx := 0, vy := - 1, speed := 420, is_held := True\<rparr>)"
  using assms
  by (simp add: start_play_def reset_level_def load_level_from_file_def fallback_full_grid
      in_play_def Let_def)

lemma handle_escape:
  "handle_input r (SDL_KEYDOWN SDLK_ESCAPE) (in_play sc lvs bs n px b)
     = (in_play sc lvs bs n px b)
         \<lparr>game_state := (game_state (in_play sc lvs bs n px b))\<lparr>show_menu := True\<rparr>\<rparr>"
  by (simp add: handle_input_def in_play_def)

lemma handle_space_menu:
  "show_menu (game_state s) \<Longrightarrow> handle_input r (SDL_KEYDOWN SDLK_SPACE) s = start_play r s"
  by (simp add: handle_input_def)

text \<open>The pass that arms, from the menu: space, and the mouse at 440.\<close>

lemma frame_arm:
  assumes "ball_w b = 14" "ball_h b = 14"
  shows "main_loop_body [(\<lambda>_. 1, SDL_KEYDOWN SDLK_SPACE), (r2, SDL_MOUSEMOTION 440)] False False rnd 0
           ((in_play sc lvs bs n px b)
              \<lparr>game_state := (game_state (in_play sc lvs bs n px b))\<lparr>show_menu := True\<rparr>\<rparr>)
           = armed sc lvs"
proof -
  let ?b = "b\<lparr>ball_rect := (ball_rect b)\<lparr>rect_x := 473, rect_y := 560\<rparr>,
               vx := 0, vy := - 1, speed := 420, is_held := True\<rparr>"
  have ev: "fold (\<lambda>(r, ev) w. handle_input r ev w)
              [(\<lambda>_. 1, SDL_KEYDOWN SDLK_SPACE), (r2, SDL_MOUSEMOTION 440)]
              ((in_play sc lvs bs n px b)
                 \<lparr>game_state := (game_state (in_play sc lvs bs n px b))\<lparr>show_menu := True\<rparr>\<rparr>)
            = in_play sc lvs full_grid 84 370 ?b"
    by (simp add: handle_space_menu start_play_in_play[OF assms] handle_mouse)
  have "update_engine rnd 0 (in_play sc lvs full_grid 84 370 ?b) = armed sc lvs"
    using engine_held[of 84 rnd 0 sc lvs full_grid 370 ?b] assms
    by (simp add: armed_def) (simp add: in_play_def ball_at_def)
  then show ?thesis
    unfolding main_loop_body_events[of "_ # _"] ev by (simp add: frame_in_play armed_def)
qed

text \<open>The same from play: escape opens the menu first.\<close>

lemma frame_rearm:
  assumes "ball_w b = 14" "ball_h b = 14"
  shows "main_loop_body [(r1, SDL_KEYDOWN SDLK_ESCAPE), (\<lambda>_. 1, SDL_KEYDOWN SDLK_SPACE),
                         (r2, SDL_MOUSEMOTION 440)] False False rnd 0 (in_play sc lvs bs n px b)
           = armed sc lvs"
  using frame_arm[OF assms, of r2 rnd sc lvs bs n px]
  by (simp add: main_loop_body_def handle_escape)

lemma running_in_play [simp]: "is_running (game_state (in_play sc lvs bs n px b))"
  by (simp add: in_play_def)

lemma running_armed [simp]: "is_running (game_state (armed sc lvs))"
  by (simp add: armed_def)

lemma running_flying [simp]: "is_running (game_state (flying sc lvs bs n y v sp))"
  by (simp add: flying_def)

lemma reachable_armed_0: "reachable (armed 0 3)"
proof -
  have r: "reachable start_world" unfolding start_world_def by (rule reachable_init)
  have run: "is_running (game_state start_world)" by (simp add: start_world_eval)
  have "main_loop_body [(\<lambda>_. 1, SDL_KEYDOWN SDLK_SPACE), (\<lambda>_. 1, SDL_MOUSEMOTION 440)] False False (\<lambda>_. 1) 0
          start_world = armed 0 3"
    unfolding start_world_eval
    using frame_arm[of "(ball_at 560 (- 1) 420 True)\<lparr>ball_rect := \<lparr>rect_x = 473, rect_y = 560, rect_w = 14, rect_h = 14\<rparr>\<rparr>"
        "\<lambda>_. 1" "\<lambda>_. 1" 0 3 full_grid 84 410]
    by (simp add: in_play_def)
  with reachable_step[OF r run] show ?thesis by metis
qed

text \<open>The serve straight up, with the mouse taken to the left edge.\<close>

lemma frame_serve:
  "main_loop_body [(\<lambda>_. 60, SDL_KEYDOWN SDLK_SPACE), (r2, SDL_MOUSEMOTION 0)] False False rnd (1 / 20)
     (armed sc lvs) = flying sc lvs full_grid 84 539 (- 1) 420"
proof -
  have ev: "fold (\<lambda>(r, ev) w. handle_input r ev w)
              [(\<lambda>_. 60, SDL_KEYDOWN SDLK_SPACE), (r2, SDL_MOUSEMOTION 0)] (armed sc lvs)
            = flying sc lvs full_grid 84 560 (- 1) 420"
    by (simp add: armed_def flying_def handle_serve handle_mouse_left)
  have "update_engine rnd (1 / 20) (in_play sc lvs full_grid 84 0 (ball_at 560 (- 1) 420 False))
          = in_play sc lvs full_grid 84 0 (ball_at (560 + (- 1) * 420 * (1 / 20)) (- 1) 420 False)"
    using full_grid_under[of 539] by (intro engine_flight) (simp_all add: full_grid_length)
  then show ?thesis
    unfolding main_loop_body_events[of "_ # _"] ev by (simp add: frame_in_play flying_def)
qed

lemma frame_up:
  assumes "296 \<le> y - 21" "y \<le> 640"
  shows "main_loop_body [] False False rnd (1 / 20) (flying sc lvs full_grid 84 y (- 1) 420)
           = flying sc lvs full_grid 84 (y - 21) (- 1) 420"
proof -
  have "update_engine rnd (1 / 20) (in_play sc lvs full_grid 84 0 (ball_at y (- 1) 420 False))
          = in_play sc lvs full_grid 84 0 (ball_at (y + (- 1) * 420 * (1 / 20)) (- 1) 420 False)"
    using full_grid_under[of "y - 21"] assms by (intro engine_flight) (simp_all add: full_grid_length)
  then show ?thesis by (simp add: frame_in_play flying_def)
qed

lemma frame_hit:
  "main_loop_body [] False False rnd (1 / 20) (flying sc lvs full_grid 84 308 (- 1) 420)
     = flying (c_int32 (sc + 10)) lvs one_gone 83 296 1 (4263 / 10)"
  using engine_hit[of rnd sc lvs] by (simp add: frame_in_play flying_def)

lemma reachable_up:
  assumes "reachable (armed sc lvs)"
  shows "k \<le> 11 \<Longrightarrow> reachable (flying sc lvs full_grid 84 (539 - 21 * real k) (- 1) 420)"
proof (induction k)
  case 0
  from reachable_step[OF assms, of "[(\<lambda>_. 60, SDL_KEYDOWN SDLK_SPACE), (\<lambda>_. 1, SDL_MOUSEMOTION 0)]"
      False False "\<lambda>_. 1" "1 / 20"]
  show ?case by (simp add: frame_serve)
next
  case (Suc k)
  then have r: "reachable (flying sc lvs full_grid 84 (539 - 21 * real k) (- 1) 420)" by simp
  from Suc.prems have "real k \<le> 10" by simp
  then have "296 \<le> (539 - 21 * real k) - 21" "539 - 21 * real k \<le> 640" by simp_all
  from frame_up[OF this, of "\<lambda>_. 1" sc lvs]
    reachable_step[OF r, of "[]" False False "\<lambda>_. 1" "1 / 20"]
  show ?case by (simp add: flying_def algebra_simps)
qed

lemma reachable_before_hit:
  "reachable (armed sc lvs) \<Longrightarrow> reachable (flying sc lvs full_grid 84 308 (- 1) 420)"
  using reachable_up[of sc lvs 11] by simp

lemma reachable_after_hit:
  assumes "reachable (armed sc lvs)"
  shows "reachable (flying (c_int32 (sc + 10)) lvs one_gone 83 296 1 (4263 / 10))"
  using reachable_step[OF reachable_before_hit[OF assms], of "[]" False False "\<lambda>_. 1" "1 / 20"]
  by (simp add: frame_hit)

lemma reachable_rearm:
  assumes "reachable (armed sc lvs)"
  shows "reachable (armed (c_int32 (sc + 10)) lvs)"
  using reachable_step[OF reachable_after_hit[OF assms],
      of "[(\<lambda>_. 1, SDL_KEYDOWN SDLK_ESCAPE), (\<lambda>_. 1, SDL_KEYDOWN SDLK_SPACE), (\<lambda>_. 1, SDL_MOUSEMOTION 440)]"
         False False "\<lambda>_. 1" 0]
  by (simp add: flying_def frame_rearm ball_at_def)

lemma reachable_armed: "n \<le> 214748364 \<Longrightarrow> reachable (armed (10 * int n) 3)"
proof (induction n)
  case 0
  show ?case using reachable_armed_0 by simp
next
  case (Suc n)
  then have "reachable (armed (10 * int n) 3)" by simp
  from reachable_rearm[OF this] Suc.prems show ?case
    by (simp add: c_int32_id algebra_simps)
qed

lemma one_gone_under:
  "296 \<le> y \<Longrightarrow> \<forall>i < 84. is_alive (one_gone ! i) \<longrightarrow>
     rect_y (brick_rect (one_gone ! i)) + rect_h (brick_rect (one_gone ! i)) \<le> y"
proof (intro allI impI)
  fix i :: nat assume "296 \<le> y" "i < 84"
  with one_gone_bottom[of i] show "rect_y (brick_rect (one_gone ! i)) + rect_h (brick_rect (one_gone ! i)) \<le> y"
    by linarith
qed

lemma frame_down:
  assumes "296 \<le> y" "y + 4263 / 200 \<le> 640"
  shows "main_loop_body [] False False rnd (1 / 20) (flying sc lvs one_gone 83 y 1 (4263 / 10))
           = flying sc lvs one_gone 83 (y + 4263 / 200) 1 (4263 / 10)"
proof -
  have "update_engine rnd (1 / 20) (in_play sc lvs one_gone 83 0 (ball_at y 1 (4263 / 10) False))
          = in_play sc lvs one_gone 83 0 (ball_at (y + 1 * (4263 / 10) * (1 / 20)) 1 (4263 / 10) False)"
    using one_gone_under[of "y + 4263 / 200"] assms
    by (intro engine_flight) (simp_all add: one_gone_length)
  then show ?thesis by (simp add: frame_in_play flying_def)
qed

lemma frame_lost:
  assumes "296 \<le> y" "640 < y + 4263 / 200" "1 < lvs"
  shows "main_loop_body [] False False rnd (1 / 20) (flying sc lvs one_gone 83 y 1 (4263 / 10))
           = in_play sc (lvs - 1) one_gone 83 410 (ball_at (y + 4263 / 200) (- 1) 420 True)"
proof -
  have "update_engine rnd (1 / 20) (in_play sc lvs one_gone 83 0 (ball_at y 1 (4263 / 10) False))
          = in_play sc (lvs - 1) one_gone 83 410
              (ball_at (y + 1 * (4263 / 10) * (1 / 20)) (- 1) 420 True)"
    using one_gone_under[of "y + 4263 / 200"] assms
    by (intro engine_life_lost) (simp_all add: one_gone_length)
  then show ?thesis by (simp add: frame_in_play flying_def)
qed

lemma reachable_down:
  assumes "reachable (armed sc lvs)"
  shows "k \<le> 16 \<Longrightarrow>
    reachable (flying (c_int32 (sc + 10)) lvs one_gone 83 (296 + 4263 / 200 * real k) 1 (4263 / 10))"
proof (induction k)
  case 0
  from reachable_after_hit[OF assms] show ?case by simp
next
  case (Suc k)
  let ?y = "296 + 4263 / 200 * real k"
  from Suc have r: "reachable (flying (c_int32 (sc + 10)) lvs one_gone 83 ?y 1 (4263 / 10))" by simp
  from Suc.prems have "real k \<le> 15" by simp
  then have "296 \<le> ?y" "?y + 4263 / 200 \<le> 640" by simp_all
  from frame_down[OF this, of "\<lambda>_. 1" "c_int32 (sc + 10)" lvs]
    reachable_step[OF r, of "[]" False False "\<lambda>_. 1" "1 / 20"]
  have "reachable (flying (c_int32 (sc + 10)) lvs one_gone 83 (?y + 4263 / 200) 1 (4263 / 10))"
    by simp
  moreover have "?y + 4263 / 200 = 296 + 4263 / 200 * real (Suc k)" by (simp add: field_simps)
  ultimately show ?case by simp
qed

lemma reachable_life_lost:
  assumes "reachable (armed sc lvs)" "1 < lvs"
  shows "reachable (armed (c_int32 (sc + 10)) (lvs - 1))"
proof -
  let ?y = "296 + 4263 / 200 * real (16::nat)"
  have r: "reachable (flying (c_int32 (sc + 10)) lvs one_gone 83 ?y 1 (4263 / 10))"
    by (rule reachable_down[OF assms(1)]) simp
  have "296 \<le> ?y" "640 < ?y + 4263 / 200" by simp_all
  from frame_lost[OF this assms(2), of "\<lambda>_. 1" "c_int32 (sc + 10)"]
    reachable_step[OF r, of "[]" False False "\<lambda>_. 1" "1 / 20"]
  have r2: "reachable (in_play (c_int32 (sc + 10)) (lvs - 1) one_gone 83 410
              (ball_at (?y + 4263 / 200) (- 1) 420 True))" by simp
  from reachable_step[OF r2,
      of "[(\<lambda>_. 1, SDL_KEYDOWN SDLK_ESCAPE), (\<lambda>_. 1, SDL_KEYDOWN SDLK_SPACE), (\<lambda>_. 1, SDL_MOUSEMOTION 440)]"
         False False "\<lambda>_. 1" 0]
  show ?thesis by (simp add: frame_rearm ball_at_def)
qed

lemma reachable_last_life_world: "reachable last_life_world"
proof -
  from reachable_life_lost[OF reachable_armed_0] have "reachable (armed 10 2)"
    by (simp add: c_int32_def)
  from reachable_life_lost[OF this] have "reachable (armed 20 1)" by (simp add: c_int32_def)
  from reachable_down[OF this, of 16] show ?thesis by (simp add: last_life_world_def c_int32_def)
qed

section \<open>\<^verbatim>\<open>part_000\<close> played out: theorems\<close>

lemma resetLevel_bricks:
  "length (gBricks (resetLevel 1 s)) = 84 \<and>
   (\<forall>i < 84. alive (gBricks (resetLevel 1 s) ! i) \<and>
      brick0_r (gBricks (resetLevel 1 s) ! i) = cell_rect (fst (grid_cells ! i)) (snd (grid_cells ! i)))"
  by (simp add: resetLevel_def Let_def grid_cells_length resetLevel_cell_def case_prod_unfold)

lemma resetLevel_state: "state (resetLevel 1 s) = (state s)\<lparr>bricks_remaining := 84\<rparr>"
proof -
  have "filter alive (map (\<lambda>(r, c). resetLevel_cell 1 (gBricks s ! brick_index r c) r c) grid_cells)
          = map (\<lambda>(r, c). resetLevel_cell 1 (gBricks s ! brick_index r c) r c) grid_cells"
    by (simp add: filter_map comp_def case_prod_unfold resetLevel_cell_def)
  then show ?thesis by (simp add: resetLevel_def Let_def grid_cells_length)
qed

lemma resetLevel_paddle_ball:
  "gPaddle (resetLevel lv s)
     = set_paddle_y 576 (set_paddle_x ((960 - paddle_w (gPaddle s)) / 2) (gPaddle s)) \<and>
   gBall (resetLevel lv s)
     = (gBall s)\<lparr>ball_rect := (ball_rect (gBall s))
                   \<lparr>rect_x := (960 - paddle_w (gPaddle s)) / 2 + (paddle_w (gPaddle s) - ball_w (gBall s)) / 2,
                    rect_y := 576 - ball_h (gBall s) - 2\<rparr>,
                 vx := 0, vy := - 1, speed := 420, is_held := True\<rparr>"
  by (simp add: resetLevel_def Let_def)

lemma initialWorld_eval:
  "gPaddle initialWorld = \<lparr>paddle_rect = \<lparr>rect_x = 410, rect_y = 576, rect_w = 140, rect_h = 18\<rparr>, velocity_x = 0\<rparr> \<and>
   gBall initialWorld = \<lparr>ball_rect = \<lparr>rect_x = 473, rect_y = 560, rect_w = 14, rect_h = 14\<rparr>,
                          vx = 0, vy = - 1, speed = 420, is_held = True\<rparr> \<and>
   state initialWorld = \<lparr>score = 0, lives = 3, level = 1, bricks_remaining = 84,
                          is_paused = False, is_running = True, show_menu = True\<rparr>"
  unfolding initialWorld_def resetGame_def
  by (simp add: resetLevel_state resetLevel_paddle_ball zero_rect_def)

lemma started0_eval:
  "gPaddle started0 = \<lparr>paddle_rect = \<lparr>rect_x = 410, rect_y = 576, rect_w = 140, rect_h = 18\<rparr>, velocity_x = 0\<rparr> \<and>
   gBall started0 = \<lparr>ball_rect = \<lparr>rect_x = 473, rect_y = 560, rect_w = 14, rect_h = 14\<rparr>,
                       vx = 0, vy = - 1, speed = 420, is_held = True\<rparr> \<and>
   state started0 = \<lparr>score = 0, lives = 3, level = 1, bricks_remaining = 84,
                       is_paused = False, is_running = True, show_menu = False\<rparr> \<and>
   length (gBricks started0) = 84 \<and>
   (\<forall>i < 84. alive (gBricks started0 ! i) \<and>
      brick0_r (gBricks started0 ! i) = cell_rect (fst (grid_cells ! i)) (snd (grid_cells ! i)))"
proof -
  let ?m = "initialWorld\<lparr>state := (state initialWorld)\<lparr>show_menu := False, is_running := True\<rparr>\<rparr>"
  let ?s1 = "resetLevel 1 ?m"
  have h: "handleInput (\<lambda>_. 60) (SDL_KEYDOWN SDLK_SPACE) initialWorld = ?s1"
    by (simp add: handleInput_def initialWorld_eval)
  have k: "keyboard_paddle False False 0 (gPaddle ?s1) = gPaddle ?s1"
    by (simp add: resetLevel_paddle_ball initialWorld_eval keyboard_paddle_def clamp_paddle_position_def Let_def)
  have u: "updateEngine 0 ?s1 = ?s1"
    by (simp add: updateEngine_def resetLevel_state resetLevel_paddle_ball initialWorld_eval
        move_ball_def wall_collision_def paddle_bounce_def ballFell_def levelCleared_def Let_def)
  have e: "started0 = ?s1"
    by (simp add: started0_def mainLoopBody_def h k u Let_def)
  show ?thesis
    unfolding e using resetLevel_bricks[of ?m]
    by (simp add: resetLevel_state resetLevel_paddle_ball initialWorld_eval)
qed

lemma brickLoop_below:
  "\<forall>(r, c) \<in> set cells. alive (gBricks s ! brick_index r c) \<longrightarrow>
      rect_y (brick0_r (gBricks s ! brick_index r c)) + rect_h (brick0_r (gBricks s ! brick_index r c))
        \<le> ball_y (gBall s) \<Longrightarrow>
   brickLoop cells s = s"
  by (induction cells s rule: brickLoop.induct) (auto simp: rect_overlap_def Let_def)

lemma brickLoop_hit_score:
  "(r, c) \<in> set cells \<Longrightarrow> alive (gBricks s ! brick_index r c) \<Longrightarrow>
   rect_overlap (ball_rect (gBall s)) (brick0_r (gBricks s ! brick_index r c)) \<Longrightarrow>
   score (state (brickLoop cells s)) = c_int32 (score (state s) + (10 + (level (state s) - 1) * 5))"
  by (induction cells s rule: brickLoop.induct) (auto simp: Let_def score_hitBrick)

lemma grid_cells_index: "(r, c) \<in> set grid_cells \<Longrightarrow> brick_index r c < 84 \<and> grid_cells ! brick_index r c = (r, c)"
proof -
  assume m: "(r, c) \<in> set grid_cells"
  then obtain i where i: "i < 84" "grid_cells ! i = (r, c)"
    by (metis grid_cells_length in_set_conv_nth)
  have "map (\<lambda>(r, c). brick_index r c) grid_cells ! i = [0 ..< 84] ! i"
    using brick_index_grid_cells by simp
  with i have "brick_index r c = i" by (simp add: grid_cells_length)
  with i show ?thesis by simp
qed

lemma started0_bottom:
  assumes "(r, c) \<in> set grid_cells"
  shows "rect_y (brick0_r (gBricks started0 ! brick_index r c))
           + rect_h (brick0_r (gBricks started0 ! brick_index r c)) \<le> 296"
proof -
  from assms have r: "r < 7" by (auto simp: grid_cells_def)
  from grid_cells_index[OF assms] started0_eval
  have "brick0_r (gBricks started0 ! brick_index r c) = cell_rect r c" by simp
  moreover from r have "int r * 32 \<le> 192" by simp
  ultimately show ?thesis by (simp add: cell_rect_def)
qed

lemma state_flying0:
  "state (flying0 y) = \<lparr>score = 0, lives = 3, level = 1, bricks_remaining = 84,
                         is_paused = False, is_running = True, show_menu = False\<rparr>"
  by (simp add: flying0_def started0_eval)

lemma before_bricks0:
  assumes "0 < y - 21"
  shows "paddle_bounce BALL_SPEED_INC (gPaddle (flying0 y))
             (wall_collision (move_ball (1 / 20) (gPaddle (flying0 y)) (gBall (flying0 y))))
           = \<lparr>ball_rect = \<lparr>rect_x = 473, rect_y = y - 21, rect_w = 14, rect_h = 14\<rparr>,
              vx = 0, vy = - 1, speed = 420, is_held = False\<rparr>"
  using assms by (simp add: flying0_def move_ball_def wall_collision_def paddle_bounce_def Let_def)

lemma engine_up0:
  assumes "296 \<le> y - 21" "y \<le> 640"
  shows "updateEngine (1 / 20) (flying0 y) = flying0 (y - 21)"
proof -
  let ?b = "\<lparr>ball_rect = \<lparr>rect_x = 473, rect_y = y - 21, rect_w = 14, rect_h = 14\<rparr>,
             vx = 0, vy = - 1, speed = 420, is_held = False\<rparr>"
  from assms(1) have "0 < y - 21" by simp
  note b = before_bricks0[OF this]
  have f: "(flying0 y)\<lparr>gBall := ?b\<rparr> = flying0 (y - 21)" by (simp add: flying0_def)
  have "brickLoop grid_cells (flying0 (y - 21)) = flying0 (y - 21)"
    using started0_bottom assms(1)
    by (intro brickLoop_below) (fastforce simp: flying0_def)
  moreover have "ballFell (flying0 (y - 21)) = flying0 (y - 21)"
    using assms(2) by (simp add: ballFell_def flying0_def)
  moreover have "levelCleared (flying0 (y - 21)) = flying0 (y - 21)"
    by (simp add: levelCleared_def state_flying0)
  moreover have "\<not> is_held (gBall (flying0 (y - 21)))" by (simp add: flying0_def)
  ultimately show ?thesis
    unfolding updateEngine_def Let_def b f by (simp add: state_flying0)
qed

lemma frame_up0:
  assumes "296 \<le> y - 21" "y \<le> 640"
  shows "mainLoopBody [] False False (1 / 20) (flying0 y) = flying0 (y - 21)"
proof -
  have "keyboard_paddle False False (1 / 20) (gPaddle (flying0 y)) = gPaddle (flying0 y)"
    by (simp add: flying0_def started0_eval keyboard_paddle_def clamp_paddle_position_def Let_def)
  then show ?thesis by (simp add: mainLoopBody_def engine_up0[OF assms] Let_def)
qed

lemma frame_serve0:
  "mainLoopBody [(\<lambda>_. 60, SDL_KEYDOWN SDLK_SPACE)] False False (1 / 20) started0 = flying0 539"
proof -
  have "serve_ball (\<lambda>_. 60) (gBall started0)
          = \<lparr>ball_rect = \<lparr>rect_x = 473, rect_y = 560, rect_w = 14, rect_h = 14\<rparr>,
             vx = 0, vy = - 1, speed = 420, is_held = False\<rparr>"
    by (simp add: started0_eval serve_ball_def c_mod_def c_div_def Let_def)
  then have h: "handleInput (\<lambda>_. 60) (SDL_KEYDOWN SDLK_SPACE) started0 = flying0 560"
    by (simp add: handleInput_def started0_eval flying0_def)
  have k: "keyboard_paddle False False (1 / 20) (gPaddle (flying0 560)) = gPaddle (flying0 560)"
    by (simp add: flying0_def started0_eval keyboard_paddle_def clamp_paddle_position_def Let_def)
  have "updateEngine (1 / 20) (flying0 560) = flying0 (560 - 21)" by (rule engine_up0) simp_all
  then show ?thesis by (simp add: mainLoopBody_def h k Let_def)
qed

lemma reachable0_started0: "reachable0 started0"
proof -
  have "is_running (state initialWorld)" by (simp add: initialWorld_eval)
  from reachable0_step[OF reachable0_init this] show ?thesis by (simp add: started0_def)
qed

lemma reachable0_up: "k \<le> 11 \<Longrightarrow> reachable0 (flying0 (539 - 21 * real k))"
proof (induction k)
  case 0
  have "is_running (state started0)" by (simp add: started0_eval)
  from reachable0_step[OF reachable0_started0 this, of "[(\<lambda>_. 60, SDL_KEYDOWN SDLK_SPACE)]" False False "1 / 20"]
  show ?case by (simp add: frame_serve0)
next
  case (Suc k)
  then have r: "reachable0 (flying0 (539 - 21 * real k))" by simp
  from Suc.prems have "real k \<le> 10" by simp
  then have "296 \<le> (539 - 21 * real k) - 21" "539 - 21 * real k \<le> 640" by simp_all
  from frame_up0[OF this] reachable0_step[OF r, of "[]" False False "1 / 20"]
  have "reachable0 (flying0 (539 - 21 * real k - 21))" by (simp add: state_flying0)
  moreover have "539 - 21 * real k - 21 = 539 - 21 * real (Suc k)" by (simp add: field_simps)
  ultimately show ?case by simp
qed

lemma score_hit0:
  "reachable0 (flying0 308) \<and> score (state (flying0 308)) = 0 \<and>
   score (state (updateEngine (1 / 20) (flying0 308))) = 10"
proof -
  let ?b = "\<lparr>ball_rect = \<lparr>rect_x = 473, rect_y = 287, rect_w = 14, rect_h = 14\<rparr>,
             vx = 0, vy = - 1, speed = 420, is_held = False\<rparr>"
  have b: "paddle_bounce BALL_SPEED_INC (gPaddle (flying0 308))
             (wall_collision (move_ball (1 / 20) (gPaddle (flying0 308)) (gBall (flying0 308)))) = ?b"
    using before_bricks0[of 308] by simp
  have f: "(flying0 308)\<lparr>gBall := ?b\<rparr> = flying0 287" by (simp add: flying0_def)
  have m: "(6, 5) \<in> set grid_cells"
    by (simp add: grid_cells_def) (rule bexI[of _ 6], simp_all)
  from grid_cells_index[OF m] started0_eval
  have br: "brick0_r (gBricks started0 ! brick_index 6 5) = cell_rect 6 5"
    "alive (gBricks started0 ! brick_index 6 5)" by simp_all
  have "score (state (brickLoop grid_cells (flying0 287)))
          = c_int32 (score (state (flying0 287)) + (10 + (level (state (flying0 287)) - 1) * 5))"
    using br by (intro brickLoop_hit_score[OF m]) (simp_all add: flying0_def rect_overlap_def cell_rect_def)
  then have "score (state (updateEngine (1 / 20) (flying0 308))) = 10"
    unfolding updateEngine_def Let_def b f
    by (simp add: state_flying0 c_int32_def) (simp add: flying0_def)
  moreover have "reachable0 (flying0 308)" using reachable0_up[of 11] by simp
  ultimately show ?thesis by (simp add: state_flying0)
qed

section \<open>The last life: theorems\<close>

text \<open>
  The pass of the loop of \<^verbatim>\<open>WinMain\<close> in which \<^verbatim>\<open>update_ball\<close> takes the last life: the ball,
  after its move, is at or below the bottom edge.
\<close>

lemma win_last_life:
  assumes "\<not> paused (w_state w)" "\<not> game_over (w_state w)" "\<not> victory (w_state w)"
    and "gs_lives (w_state w) = 1"
    and "real_of_int WINDOW_HEIGHT_win
           \<le> ball_cy (w_ball w) + dy (w_ball w) - real_of_int (radius (w_ball w))"
  shows "game_over (w_state (frame_win rnd w)) \<and>
         gs_lives (w_state (frame_win rnd w)) = 0 \<and>
         gs_score (w_state (frame_win rnd w)) = gs_score (w_state w) \<and>
         highscore_txt (frame_win rnd w)
           = (if highscore_txt_writable w then highscore_txt w @ [gs_score (w_state w)]
              else highscore_txt w)"
  using assms
  by (simp add: frame_win_def update_ball_def save_score_def Let_def)

text \<open>
  Claim C4. In \<^verbatim>\<open>arkanoid_full.c\<close>, take a state \<open>s\<close> that the loop of \<^verbatim>\<open>main\<close> reaches and a
  pass whose events and keys leave the session in play with one life. If at the label
  \<^verbatim>\<open>after_brick\<close> of the engine step the ball is not held and is below the bottom edge, the
  step clears \<^verbatim>\<open>is_running\<close>, sets \<^verbatim>\<open>show_menu\<close>, leaves no life, and calls
  \<^verbatim>\<open>add_to_leaderboard\<close> exactly once, with the score of the final state. (\<open>delta\<close> is a
  difference of two readings of the performance counter, so it is not negative.) In
  \<^verbatim>\<open>arkanoid.c\<close>, whose terminal flag is \<^verbatim>\<open>game_over\<close>, the pass in which a game in play loses its
  last life sets \<^verbatim>\<open>game_over\<close>, leaves no life, keeps the score and calls \<^verbatim>\<open>save_score\<close> once:
  the file gains the final score, once, when it can be opened.
\<close>

theorem last_life_lost_ends_session:
  "(reachable s \<and> 0 \<le> delta \<and>
    playing (engine_input evs left right delta s) \<and>
    lives (game_state (engine_input evs left right delta s)) = 1 \<and>
    \<not> is_held (ball (engine_after_brick (delta_time delta) (engine_input evs left right delta s))) \<and>
    ball_y (ball (engine_after_brick (delta_time delta) (engine_input evs left right delta s)))
      > WINDOW_HEIGHT \<longrightarrow>
    \<not> is_running (game_state (update_engine rnd (delta_time delta) (engine_input evs left right delta s))) \<and>
    show_menu (game_state (update_engine rnd (delta_time delta) (engine_input evs left right delta s))) \<and>
    lives (game_state (update_engine rnd (delta_time delta) (engine_input evs left right delta s))) = 0 \<and>
    filter is_add_to_leaderboard
      (new_calls (engine_input evs left right delta s)
         (update_engine rnd (delta_time delta) (engine_input evs left right delta s)))
      = [Add_To_Leaderboard
           (score (game_state (update_engine rnd (delta_time delta) (engine_input evs left right delta s))))]) \<and>
   (\<not> paused (w_state w) \<and> \<not> game_over (w_state w) \<and> \<not> victory (w_state w) \<and>
    gs_lives (w_state w) = 1 \<and>
    real_of_int WINDOW_HEIGHT_win
      \<le> ball_cy (w_ball w) + dy (w_ball w) - real_of_int (radius (w_ball w)) \<longrightarrow>
    game_over (w_state (frame_win rnd' w)) \<and>
    gs_lives (w_state (frame_win rnd' w)) = 0 \<and>
    gs_score (w_state (frame_win rnd' w)) = gs_score (w_state w) \<and>
    highscore_txt (frame_win rnd' w)
      = (if highscore_txt_writable w then highscore_txt w @ [gs_score (w_state w)]
         else highscore_txt w))"
  using last_life_engine[of s delta evs left right rnd] win_last_life[of w rnd']
  by blast

text \<open>
  The last pass of the session played out above: the ball, on the last life and with a
  score of 30, falls from 637.04 to 658.355. And the state \<open>win_lost_world\<close> of \<^verbatim>\<open>arkanoid.c\<close>.
\<close>

lemma last_life_world_input:
  "engine_input [] False False (1 / 20) last_life_world = last_life_world"
  by (simp add: engine_input_def keyboard_paddle_def clamp_paddle_position_def last_life_world_def
      flying_def in_play_def Let_def)

lemma last_life_world_after_brick:
  "engine_after_brick (1 / 20) last_life_world
     = in_play 30 1 one_gone 83 0 (ball_at (131671 / 200) 1 (4263 / 10) False)"
proof -
  have "engine_after_brick (1 / 20) (in_play 30 1 one_gone 83 0 (ball_at (15926 / 25) 1 (4263 / 10) False))
          = in_play 30 1 one_gone 83 0 (ball_at (15926 / 25 + 1 * (4263 / 10) * (1 / 20)) 1 (4263 / 10) False)"
    using one_gone_under[of "131671 / 200"]
    by (intro after_brick_free) (simp_all add: one_gone_length)
  then show ?thesis by (simp add: last_life_world_def flying_def)
qed

theorem last_life_lost_ends_session_witness:
  "reachable last_life_world \<and> playing last_life_world \<and>
   lives (game_state last_life_world) = 1 \<and> score (game_state last_life_world) = 30 \<and>
   ball_y (ball last_life_world) = 15926 / 25 \<and>
   ball_y (ball (engine_after_brick (1 / 20) last_life_world)) = 131671 / 200 \<and>
   \<not> is_running (game_state (update_engine (\<lambda>_. 1) (1 / 20) last_life_world)) \<and>
   show_menu (game_state (update_engine (\<lambda>_. 1) (1 / 20) last_life_world)) \<and>
   lives (game_state (update_engine (\<lambda>_. 1) (1 / 20) last_life_world)) = 0 \<and>
   filter is_add_to_leaderboard
     (new_calls last_life_world (update_engine (\<lambda>_. 1) (1 / 20) last_life_world))
     = [Add_To_Leaderboard 30] \<and>
   gs_lives (w_state win_lost_world) = 1 \<and> gs_score (w_state win_lost_world) = 30 \<and>
   game_over (w_state (frame_win (\<lambda>_. 0) win_lost_world)) \<and>
   highscore_txt (frame_win (\<lambda>_. 0) win_lost_world) = [30]"
proof -
  have dt: "delta_time (1 / 20) = 1 / 20" by (simp add: delta_time_def)
  have r: "reachable last_life_world" by (rule reachable_last_life_world)
  have p: "playing last_life_world" "lives (game_state last_life_world) = 1"
    "score (game_state last_life_world) = 30" "ball_y (ball last_life_world) = 15926 / 25"
    by (simp_all add: last_life_world_def flying_def in_play_def ball_at_def playing_def)
  have a: "\<not> is_held (ball (engine_after_brick (1 / 20) last_life_world))"
    "ball_y (ball (engine_after_brick (1 / 20) last_life_world)) = 131671 / 200"
    by (simp_all add: last_life_world_after_brick in_play_def ball_at_def)
  have sc: "score (game_state (update_engine (\<lambda>_. 1) (1 / 20) last_life_world)) = 30"
    using p(1) by (simp add: update_engine_def playing_def last_life_world_after_brick)
                  (simp add: in_play_def)
  have w: "\<not> paused (w_state win_lost_world)" "\<not> game_over (w_state win_lost_world)"
    "\<not> victory (w_state win_lost_world)" "gs_lives (w_state win_lost_world) = 1"
    "gs_score (w_state win_lost_world) = 30" "highscore_txt win_lost_world = []"
    "highscore_txt_writable win_lost_world"
    "real_of_int WINDOW_HEIGHT_win
       \<le> ball_cy (w_ball win_lost_world) + dy (w_ball win_lost_world)
           - real_of_int (radius (w_ball win_lost_world))"
    by (simp_all add: win_lost_world_def)
  from last_life_lost_ends_session[of last_life_world "1 / 20" "[]" False False "\<lambda>_. 1"
      win_lost_world "\<lambda>_. 0"]
  show ?thesis
    unfolding last_life_world_input dt using r p a sc w by simp
qed

section \<open>The score in play: theorems\<close>

text \<open>
  Claim C5 as it is stated, for every reachable state, fails at \<^verbatim>\<open>INT_MAX\<close>. Escape and space
  arm the level again and keep the score, so the session played out above reaches a score
  of 2147483640, on its 214748365th serve. The engine step that destroys the next brick
  stores 2147483650 in the 32-bit score, which then holds -2147483646.
\<close>

theorem score_wraps_at_int_max:
  "reachable (flying 2147483640 3 full_grid 84 308 (- 1) 420) \<and>
   playing (flying 2147483640 3 full_grid 84 308 (- 1) 420) \<and>
   score (game_state (flying 2147483640 3 full_grid 84 308 (- 1) 420)) = 2147483640 \<and>
   score (game_state (update_engine (\<lambda>_. 1) (1 / 20) (flying 2147483640 3 full_grid 84 308 (- 1) 420)))
     = - 2147483646 \<and>
   score (game_state (update_engine (\<lambda>_. 1) (1 / 20) (flying 2147483640 3 full_grid 84 308 (- 1) 420)))
     < score (game_state (flying 2147483640 3 full_grid 84 308 (- 1) 420))"
proof -
  have "reachable (armed (10 * int 214748364) 3)" by (rule reachable_armed) simp
  then have "reachable (armed 2147483640 3)" by simp
  from reachable_before_hit[OF this] show ?thesis
    by (simp add: engine_hit) (simp add: flying_def in_play_def playing_def c_int32_def)
qed

text \<open>
  The first brick of that session, worth 10, in one step and in two; and the same for
  \<^verbatim>\<open>part_000\<close>.
\<close>

theorem score_never_decreases_witness:
  "score (game_state (flying 0 3 full_grid 84 308 (- 1) 420)) = 0 \<and>
   score (game_state (update_engine (\<lambda>_. 1) (1 / 20) (flying 0 3 full_grid 84 308 (- 1) 420))) = 10 \<and>
   score (game_state (flying 0 3 full_grid 84 308 (- 1) 420))
     \<le> score (game_state (fold (\<lambda>(rnd, dt). update_engine rnd dt) [(\<lambda>_. 1, 1 / 20), (\<lambda>_. 1, 1 / 20)]
           (flying 0 3 full_grid 84 308 (- 1) 420))) \<and>
   reachable0 (flying0 308) \<and> score (state (flying0 308)) = 0 \<and> level (state (flying0 308)) = 1 \<and>
   score (state (updateEngine (1 / 20) (flying0 308))) = 10 \<and>
   score (state (flying0 308))
     \<le> score (state (fold updateEngine [1 / 20, 1 / 20] (flying0 308)))"
proof -
  let ?s = "flying 0 3 full_grid 84 308 (- 1) 420"
  have z: "score (game_state ?s) = 0" by (simp add: flying_def in_play_def)
  have t: "score (game_state (update_engine (\<lambda>_. 1) (1 / 20) ?s)) = 10"
    by (simp add: engine_hit) (simp add: flying_def in_play_def c_int32_def)
  have l: "level (state (flying0 308)) = 1" by (simp add: state_flying0)
  from score_never_decreases[of ?s "\<lambda>_. 1" "1 / 20" "[(\<lambda>_. 1, 1 / 20), (\<lambda>_. 1, 1 / 20)]"
      "flying0 308" "1 / 20" "[1 / 20, 1 / 20]"] z t l score_hit0
  show ?thesis by simp
qed

end
